theory Spec2Isabelle
  imports Complex_Main
begin

section \<open>JavaScript values and numbers\<close>

text \<open>
  A JavaScript number is a double. It is modelled as a real when it is finite, with the
  three non-finite values kept apart, so every theorem below is about exact arithmetic:
  rounding and the sign of zero are not represented.
\<close>

datatype jsnum = Fin real | NaN | PosInf | NegInf

text \<open>
  A field of a parsed JSON message. \<open>JStr s n\<close> is the string \<open>s\<close> and \<open>JObject n\<close> an
  array or object; \<open>n\<close> is what \<open>Number(...)\<close> yields on that value (the string-to-number
  grammar is not re-implemented here, its result is carried along).
\<close>

datatype jsval =
    JUndefined
  | JNull
  | JBool bool
  | JNum jsnum
  | JStr string jsnum
  | JObject jsnum

text \<open>\<open>Number(value)\<close>.\<close>

fun toNumber :: "jsval \<Rightarrow> jsnum" where
  "toNumber JUndefined = NaN"
| "toNumber JNull = Fin 0"
| "toNumber (JBool b) = Fin (if b then 1 else 0)"
| "toNumber (JNum n) = n"
| "toNumber (JStr s n) = n"
| "toNumber (JObject n) = n"

text \<open>
  \<open>Number.isFinite\<close> on a number, and on an arbitrary value (no coercion: true on finite
  numbers only). \<open>real_of\<close> reads a finite number; the code reads it behind an
  \<open>isFinite\<close> test only.
\<close>

fun isFiniteNum :: "jsnum \<Rightarrow> bool" where
  "isFiniteNum (Fin r) = True"
| "isFiniteNum n = False"

fun Number_isFinite :: "jsval \<Rightarrow> bool" where
  "Number_isFinite (JNum n) = isFiniteNum n"
| "Number_isFinite v = False"

fun real_of :: "jsnum \<Rightarrow> real" where
  "real_of (Fin r) = r"
| "real_of n = 0"

text \<open>\<open>n || 0\<close> on a number: \<open>NaN\<close> and zero are falsy.\<close>

fun or_zero :: "jsnum \<Rightarrow> jsnum" where
  "or_zero NaN = Fin 0"
| "or_zero n = n"

text \<open>The remainder operator \<open>a % b\<close> on finite numbers: the quotient is truncated towards zero.\<close>

definition trunc :: "real \<Rightarrow> int" where
  "trunc r = (if 0 \<le> r then \<lfloor>r\<rfloor> else \<lceil>r\<rceil>)"

definition js_rem :: "real \<Rightarrow> real \<Rightarrow> real" where
  "js_rem a b = a - b * of_int (trunc (a / b))"

text \<open>
  \<open>Math.hypot(x, y)\<close> and \<open>Math.atan2(y, x)\<close> on finite numbers, without the rounding
  of the built-ins: the double that \<open>Math.hypot\<close> returns can differ from the exact root
  in the last place (for instance \<open>0.9999999999999999\<close> where the exact root is just above
  1), and \<open>Math.atan2(0, -0)\<close> is \<open>\<pi>\<close> where this model, which has one zero only, gives
  0. Where a statement would depend on the rounding of \<open>Math.hypot\<close>, the function is taken
  as a parameter instead (\<open>normalizeStickPayload_with\<close> below).
\<close>

definition Math_hypot :: "real \<Rightarrow> real \<Rightarrow> real" where
  "Math_hypot a b = sqrt (a\<^sup>2 + b\<^sup>2)"

definition Math_atan2 :: "real \<Rightarrow> real \<Rightarrow> real" where
  "Math_atan2 b a =
     (if 0 < a then arctan (b / a)
      else if a < 0 then (if 0 \<le> b then arctan (b / a) + pi else arctan (b / a) - pi)
      else if 0 < b then pi / 2
      else if b < 0 then - (pi / 2)
      else 0)"

section \<open>Stick vectors and the server's normalizer (server.js)\<close>

record stick =
  stick_x :: real
  stick_y :: real
  stick_mag :: real
  stick_deg :: real

definition initialStickState :: stick where
  "initialStickState = \<lparr>stick_x = 0, stick_y = 0, stick_mag = 0, stick_deg = 0\<rparr>"

text \<open>The numeric fields of a stick message or of a \<open>stick\<close> object, as received.\<close>

record payload =
  px :: jsval
  py :: jsval
  pmag :: jsval
  pdeg :: jsval

text \<open>\<open>sanitizeNumber(value, fallback = 0)\<close>.\<close>

definition sanitizeNumber :: "jsval \<Rightarrow> real" where
  "sanitizeNumber v =
     (let num = toNumber v
      in if \<not> isFiniteNum num then 0 else max (- 1) (min 1 (real_of num)))"

text \<open>
  \<open>normalizeStickPayload(payload)\<close>, with the built-in \<open>Math.hypot\<close> as the parameter
  \<open>hypot\<close>.
\<close>

definition normalizeStickPayload_with ::
  "(real \<Rightarrow> real \<Rightarrow> real) \<Rightarrow> 'a payload_scheme \<Rightarrow> stick" where
  "normalizeStickPayload_with hypot p =
     (let x = sanitizeNumber (px p);
          y = sanitizeNumber (py p);
          mag = max 0 (min 1 (if Number_isFinite (pmag p) then real_of (toNumber (pmag p))
                              else hypot x y));
          deg = (if Number_isFinite (pdeg p)
                 then js_rem (js_rem (real_of (toNumber (pdeg p))) 360 + 360) 360
                 else let rad = Math_atan2 y x in js_rem (rad * (180 / pi) + 360) 360)
      in \<lparr>stick_x = x, stick_y = y, stick_mag = mag, stick_deg = deg\<rparr>)"

text \<open>The normalizer over exact arithmetic.\<close>

definition normalizeStickPayload :: "'a payload_scheme \<Rightarrow> stick" where
  "normalizeStickPayload p = normalizeStickPayload_with Math_hypot p"

text \<open>
  What is used of \<open>Math.hypot\<close> on doubles: its result is never below the magnitude of
  either argument. (The built-in divides by the larger magnitude, sums the squares, one
  of which is exactly 1, and multiplies the root of the sum by that magnitude.)
\<close>

definition hypot_dominates :: "(real \<Rightarrow> real \<Rightarrow> real) \<Rightarrow> bool" where
  "hypot_dominates hypot = (\<forall>a b. max \<bar>a\<bar> \<bar>b\<bar> \<le> hypot a b)"

section \<open>The client's normalizer (public/app.js)\<close>

text \<open>
  \<open>clamp(value, min, max) = Math.min(Math.max(value, min), max)\<close>, on a value that may be
  infinite or \<open>NaN\<close>.
\<close>

fun clamp :: "jsnum \<Rightarrow> real \<Rightarrow> real \<Rightarrow> jsnum" where
  "clamp (Fin v) lo hi = Fin (min (max v lo) hi)"
| "clamp PosInf lo hi = Fin hi"
| "clamp NegInf lo hi = Fin (min lo hi)"
| "clamp NaN lo hi = NaN"

definition normalizeDegrees :: "real \<Rightarrow> real" where
  "normalizeDegrees v = js_rem (js_rem v 360 + 360) 360"

text \<open>\<open>Number.EPSILON\<close>.\<close>

definition Number_EPSILON :: real where
  "Number_EPSILON = 1 / 2 ^ 52"

definition calculateJoystickDegrees :: "real \<Rightarrow> real \<Rightarrow> real" where
  "calculateJoystickDegrees a b =
     (if \<bar>a\<bar> < Number_EPSILON \<and> \<bar>b\<bar> < Number_EPSILON then 0
      else let standardDegrees = Math_atan2 b a * (180 / pi)
           in normalizeDegrees (90 - standardDegrees))"

text \<open>
  The stick that \<open>applyStickData(stick, ...)\<close> computes before it stores it. After
  \<open>|| 0\<close> no coordinate is \<open>NaN\<close>, so every \<open>clamp\<close> here yields a finite number.
\<close>

definition clientStick :: "'a payload_scheme \<Rightarrow> stick" where
  "clientStick p =
     (let x = real_of (clamp (or_zero (toNumber (px p))) (- 1) 1);
          y = real_of (clamp (or_zero (toNumber (py p))) (- 1) 1);
          magValue = toNumber (pmag p);
          mag = real_of (clamp (if isFiniteNum magValue then magValue else Fin (Math_hypot x y)) 0 1);
          deg = (if \<not> isFiniteNum (toNumber (pdeg p)) then calculateJoystickDegrees x y
                 else normalizeDegrees (real_of (toNumber (pdeg p))))
      in \<lparr>stick_x = x, stick_y = y, stick_mag = mag, stick_deg = deg\<rparr>)"

section \<open>The server (server.js)\<close>

subsection \<open>State\<close>

text \<open>
  The module-level variables of server.js in one record. \<open>Date.now()\<close> is an integer
  number of milliseconds; each handler takes the clock value it reads as an argument
  \<open>now\<close> (one value for one synchronous run of a handler).

  A pending timer is an entry of \<open>timers\<close>; \<open>setTimeout\<close> adds one and returns its
  handle, \<open>clearTimeout\<close> removes it, and the event loop runs its callback once, at a
  moment that is not before its due time, and removes it. What the console, the sockets
  and the downstream HTTP endpoint receive is appended to \<open>console\<close>, \<open>sent\<close>, \<open>pings\<close>,
  \<open>terminated\<close> and \<open>requests\<close>.
\<close>

datatype timer_kind = ThrottleTimer | CooldownTimer

record timer =
  timer_id :: nat
  timer_kind :: timer_kind
  timer_due :: int

datatype log_entry = Warn string | Error string

datatype wsmsg =
    MsgState string stick int
  | MsgMode string int
  | MsgStick stick int

record snapshot =
  snap_mode :: string
  snap_stick :: stick
  snap_ts :: int

record connection =
  conn_id :: nat
  isAlive :: bool
  readyState_OPEN :: bool

record config =
  NODE_RED_ENABLED :: bool
  NODE_RED_RETRY_COOLDOWN_MS :: int

record server =
  state_mode :: string
  state_stick :: stick
  state_ts :: int
  clients :: "connection list"
  lastNodeRedDispatch :: int
  nodeRedTimeout :: "nat option"
  nodeRedNextAttemptAt :: int
  nodeRedCooldownTimer :: "nat option"
  nodeRedSuppressedWarningLogged :: bool
  timers :: "timer list"
  next_timer :: nat
  console :: "log_entry list"
  sent :: "(nat \<times> wsmsg) list"
  pings :: "nat list"
  terminated :: "nat list"
  requests :: "(int \<times> snapshot) list"

definition NODE_RED_THROTTLE_MS :: int where
  "NODE_RED_THROTTLE_MS = 50"

text \<open>The state at start-up, before the first \<open>scheduleNodeRedPush()\<close>; \<open>t0\<close> is the clock then.\<close>

definition initial_server :: "int \<Rightarrow> server" where
  "initial_server t0 =
     \<lparr>state_mode = ''automatic'', state_stick = initialStickState, state_ts = t0,
      clients = [], lastNodeRedDispatch = 0, nodeRedTimeout = None,
      nodeRedNextAttemptAt = 0, nodeRedCooldownTimer = None,
      nodeRedSuppressedWarningLogged = False, timers = [], next_timer = 0,
      console = [], sent = [], pings = [], terminated = [], requests = []\<rparr>"

definition log :: "log_entry \<Rightarrow> server \<Rightarrow> server" where
  "log e s = s\<lparr>console := console s @ [e]\<rparr>"

definition setTimeout :: "timer_kind \<Rightarrow> int \<Rightarrow> server \<Rightarrow> nat \<times> server" where
  "setTimeout k due s =
     (next_timer s,
      s\<lparr>timers := timers s @ [\<lparr>timer_id = next_timer s, timer_kind = k, timer_due = due\<rparr>],
        next_timer := Suc (next_timer s)\<rparr>)"

definition clearTimeout :: "nat \<Rightarrow> server \<Rightarrow> server" where
  "clearTimeout h s = s\<lparr>timers := filter (\<lambda>t. timer_id t \<noteq> h) (timers s)\<rparr>"

subsection \<open>Broadcast\<close>

text \<open>\<open>broadcast(payload)\<close>, always called without \<open>exclude\<close>: one send per open client.\<close>

definition broadcast :: "wsmsg \<Rightarrow> server \<Rightarrow> server" where
  "broadcast m s =
     s\<lparr>sent := sent s @ map (\<lambda>c. (conn_id c, m)) (filter readyState_OPEN (clients s))\<rparr>"

subsection \<open>Downstream forwarding: throttle and circuit breaker\<close>

text \<open>
  \<open>postToNodeRed(body)\<close> up to its \<open>await fetch(...)\<close>: either it returns early or it
  issues the request.
\<close>

definition postToNodeRed :: "config \<Rightarrow> int \<Rightarrow> snapshot \<Rightarrow> server \<Rightarrow> server" where
  "postToNodeRed cfg now body s =
     (if \<not> NODE_RED_ENABLED cfg then s
      else if nodeRedNextAttemptAt s \<noteq> 0 \<and> now < nodeRedNextAttemptAt s then s
      else s\<lparr>requests := requests s @ [(now, body)]\<rparr>)"

text \<open>
  How an issued request ends: a response (\<open>response.ok\<close> or not), the abort of the 5 s
  timeout, or another error with its code (\<open>error?.cause?.code || error.code\<close>).
\<close>

datatype outcome = Response bool | AbortError | FetchError string

text \<open>\<open>postToNodeRed\<close> after the \<open>await\<close>, run when the request ends, at clock \<open>now\<close>.\<close>

definition postToNodeRed_settled :: "config \<Rightarrow> int \<Rightarrow> outcome \<Rightarrow> server \<Rightarrow> server" where
  "postToNodeRed_settled cfg now r s =
     (case r of
        Response ok \<Rightarrow>
          (let s1 = (if \<not> ok then log (Error ''[Node-RED] HTTP status'') s else s);
               s2 = s1\<lparr>nodeRedNextAttemptAt := 0, nodeRedSuppressedWarningLogged := False\<rparr>
           in case nodeRedCooldownTimer s2 of
                Some h \<Rightarrow> (clearTimeout h s2)\<lparr>nodeRedCooldownTimer := None\<rparr>
              | None \<Rightarrow> s2)
      | AbortError \<Rightarrow> log (Warn ''[Node-RED] Request timed out'') s
      | FetchError errorCode \<Rightarrow>
          (if errorCode = ''ECONNREFUSED'' then
             (let s1 = s\<lparr>nodeRedNextAttemptAt := now + NODE_RED_RETRY_COOLDOWN_MS cfg\<rparr>;
                  s2 = (if \<not> nodeRedSuppressedWarningLogged s1
                        then (log (Warn ''[Node-RED] Unable to reach (ECONNREFUSED). Suppressing requests'') s1)
                               \<lparr>nodeRedSuppressedWarningLogged := True\<rparr>
                        else s1)
              in if nodeRedCooldownTimer s2 = None then
                   (let delay = max 0 (nodeRedNextAttemptAt s2 - now);
                        (h, s3) = setTimeout CooldownTimer
                                    (now + (if delay \<noteq> 0 then delay else NODE_RED_RETRY_COOLDOWN_MS cfg)) s2
                    in s3\<lparr>nodeRedCooldownTimer := Some h\<rparr>)
                 else s2)
           else log (Error ''[Node-RED] Request failed'') s))"

text \<open>The closure \<open>dispatch\<close> inside \<open>scheduleNodeRedPush\<close>.\<close>

definition dispatch :: "config \<Rightarrow> int \<Rightarrow> server \<Rightarrow> server" where
  "dispatch cfg now s =
     (let s1 = s\<lparr>lastNodeRedDispatch := now, nodeRedTimeout := None\<rparr>
      in if nodeRedNextAttemptAt s1 \<noteq> 0 \<and> now < nodeRedNextAttemptAt s1 then s1
         else postToNodeRed cfg now
                \<lparr>snap_mode = state_mode s1, snap_stick = state_stick s1, snap_ts = state_ts s1\<rparr> s1)"

definition scheduleNodeRedPush :: "config \<Rightarrow> int \<Rightarrow> server \<Rightarrow> server" where
  "scheduleNodeRedPush cfg now s =
     (if \<not> NODE_RED_ENABLED cfg then s
      else if now - lastNodeRedDispatch s \<ge> NODE_RED_THROTTLE_MS then dispatch cfg now s
      else if nodeRedTimeout s \<noteq> None then s
      else (let delay = max 0 (NODE_RED_THROTTLE_MS - (now - lastNodeRedDispatch s));
                (h, s1) = setTimeout ThrottleTimer (now + delay) s
            in s1\<lparr>nodeRedTimeout := Some h\<rparr>))"

text \<open>
  The event loop runs the callback of the pending timer \<open>h\<close> at clock \<open>now\<close>: nothing
  happens when \<open>h\<close> is not pending or not yet due.
\<close>

definition fire_timer :: "config \<Rightarrow> int \<Rightarrow> nat \<Rightarrow> server \<Rightarrow> server" where
  "fire_timer cfg now h s =
     (case find (\<lambda>t. timer_id t = h) (timers s) of
        None \<Rightarrow> s
      | Some t \<Rightarrow>
          (if now < timer_due t then s
           else (let s1 = clearTimeout h s
                 in case timer_kind t of
                      ThrottleTimer \<Rightarrow> dispatch cfg now s1
                    | CooldownTimer \<Rightarrow> scheduleNodeRedPush cfg now (s1\<lparr>nodeRedCooldownTimer := None\<rparr>))))"

subsection \<open>State store and message handler\<close>

text \<open>
  \<open>updateState(newState)\<close>: \<open>newState.mode ?? state.mode\<close>, the merge of \<open>newState.stick\<close>
  (always a full stick here) into \<open>state.stick\<close>, the time stamp, the downstream push.
\<close>

definition updateState :: "config \<Rightarrow> int \<Rightarrow> string option \<Rightarrow> stick option \<Rightarrow> server \<Rightarrow> server" where
  "updateState cfg now newMode newStick s =
     scheduleNodeRedPush cfg now
       (s\<lparr>state_mode := (case newMode of Some m \<Rightarrow> m | None \<Rightarrow> state_mode s),
          state_stick := (case newStick of Some st \<Rightarrow> st | None \<Rightarrow> state_stick s),
          state_ts := now\<rparr>)"

text \<open>\<open>value === 'literal'\<close> for a string literal.\<close>

fun is_string :: "jsval \<Rightarrow> string \<Rightarrow> bool" where
  "is_string (JStr v n) lit = (v = lit)"
| "is_string v lit = False"

definition validateMode :: "jsval \<Rightarrow> bool" where
  "validateMode v = (is_string v ''automatic'' \<or> is_string v ''manual'')"

fun string_of :: "jsval \<Rightarrow> string" where
  "string_of (JStr v n) = v"
| "string_of v = []"

text \<open>
  An incoming frame: text that \<open>JSON.parse\<close> rejects, a JSON value that is \<open>null\<close> or not
  an object, or an object (or array) with the fields the handler reads; an absent field
  is \<open>JUndefined\<close>.
\<close>

record message = payload +
  mtype :: jsval
  mmode :: jsval

datatype frame = Malformed | NonObject | Object message

text \<open>\<open>ws.on('message', ...)\<close>.\<close>

definition on_message :: "config \<Rightarrow> int \<Rightarrow> frame \<Rightarrow> server \<Rightarrow> server" where
  "on_message cfg now f s =
     (case f of
        Malformed \<Rightarrow> log (Warn ''[WS] Invalid JSON received'') s
      | NonObject \<Rightarrow> s
      | Object m \<Rightarrow>
          (if is_string (mtype m) ''setMode'' then
             (if \<not> validateMode (mmode m) then log (Warn ''[WS] Invalid mode received'') s
              else (let s1 = updateState cfg now (Some (string_of (mmode m))) None s
                    in broadcast (MsgMode (state_mode s1) (state_ts s1)) s1))
           else if is_string (mtype m) ''stick'' then
             (let stick = normalizeStickPayload m;
                  s1 = updateState cfg now None (Some stick) s
              in broadcast (MsgStick (state_stick s1) (state_ts s1)) s1)
           else log (Warn ''[WS] Unknown message type'') s))"

subsection \<open>Connection registry and heartbeat\<close>

text \<open>\<open>wss.on('connection', ...)\<close> for a new socket \<open>ws\<close>, and its \<open>pong\<close> and \<open>close\<close> handlers.\<close>

definition on_connection :: "nat \<Rightarrow> server \<Rightarrow> server" where
  "on_connection ws s =
     s\<lparr>clients := (if ws \<in> conn_id ` set (clients s)
                   then map (\<lambda>c. if conn_id c = ws then c\<lparr>isAlive := True\<rparr> else c) (clients s)
                   else clients s @ [\<lparr>conn_id = ws, isAlive = True, readyState_OPEN = True\<rparr>]),
       sent := sent s @ [(ws, MsgState (state_mode s) (state_stick s) (state_ts s))]\<rparr>"

definition on_pong :: "nat \<Rightarrow> server \<Rightarrow> server" where
  "on_pong ws s =
     s\<lparr>clients := map (\<lambda>c. if conn_id c = ws then c\<lparr>isAlive := True\<rparr> else c) (clients s)\<rparr>"

definition on_close :: "nat \<Rightarrow> server \<Rightarrow> server" where
  "on_close ws s = s\<lparr>clients := filter (\<lambda>c. conn_id c \<noteq> ws) (clients s)\<rparr>"

text \<open>
  The body of the heartbeat interval, over the registry in iteration order: the
  registry afterwards, the sockets terminated and the sockets pinged.
\<close>

fun heartbeat_loop :: "connection list \<Rightarrow> connection list \<times> nat list \<times> nat list" where
  "heartbeat_loop [] = ([], [], [])"
| "heartbeat_loop (ws # rest) =
     (let (keep, term, ping) = heartbeat_loop rest
      in if isAlive ws = False then (keep, conn_id ws # term, ping)
         else (ws\<lparr>isAlive := False\<rparr> # keep, term, conn_id ws # ping))"

definition heartbeat :: "server \<Rightarrow> server" where
  "heartbeat s =
     (let (keep, term, ping) = heartbeat_loop (clients s)
      in s\<lparr>clients := keep, terminated := terminated s @ term, pings := pings s @ ping\<rparr>)"

subsection \<open>Runs of the server\<close>

text \<open>
  What the event loop can hand to the server: a frame from a client, a new connection,
  a pong, a socket closing, a heartbeat tick, a pending timer's callback, and the end of
  a downstream request. \<open>startup\<close> is the module body: the initial state and the first
  \<open>scheduleNodeRedPush()\<close>.
\<close>

datatype event =
    Message int frame
  | Connection nat
  | Pong nat
  | Close nat
  | Heartbeat
  | Timer int nat
  | Settled int outcome

fun step :: "config \<Rightarrow> server \<Rightarrow> event \<Rightarrow> server" where
  "step cfg s (Message now f) = on_message cfg now f s"
| "step cfg s (Connection ws) = on_connection ws s"
| "step cfg s (Pong ws) = on_pong ws s"
| "step cfg s (Close ws) = on_close ws s"
| "step cfg s Heartbeat = heartbeat s"
| "step cfg s (Timer now h) = fire_timer cfg now h s"
| "step cfg s (Settled now r) = postToNodeRed_settled cfg now r s"

definition run :: "config \<Rightarrow> server \<Rightarrow> event list \<Rightarrow> server" where
  "run cfg s evs = foldl (step cfg) s evs"

definition startup :: "config \<Rightarrow> int \<Rightarrow> server" where
  "startup cfg t0 = scheduleNodeRedPush cfg t0 (initial_server t0)"

text \<open>The ranges of the shared state.\<close>

definition stick_in_range :: "stick \<Rightarrow> bool" where
  "stick_in_range st =
     (- 1 \<le> stick_x st \<and> stick_x st \<le> 1 \<and> - 1 \<le> stick_y st \<and> stick_y st \<le> 1
      \<and> 0 \<le> stick_mag st \<and> stick_mag st \<le> 1 \<and> 0 \<le> stick_deg st \<and> stick_deg st < 360)"

definition state_in_range :: "server \<Rightarrow> bool" where
  "state_in_range s =
     (stick_in_range (state_stick s) \<and> state_mode s \<in> {''automatic'', ''manual''})"

text \<open>
  The frames the handler rejects: text that is not JSON, an object whose \<open>type\<close> is
  neither \<open>'setMode'\<close> nor \<open>'stick'\<close>, and a \<open>setMode\<close> message with an invalid mode.
\<close>

fun rejected :: "frame \<Rightarrow> bool" where
  "rejected Malformed = True"
| "rejected NonObject = False"
| "rejected (Object m) =
     (if is_string (mtype m) ''setMode'' then \<not> validateMode (mmode m)
      else \<not> is_string (mtype m) ''stick'')"

section \<open>The client (public/app.js)\<close>

subsection \<open>State\<close>

text \<open>
  The variables of the client script in one record. Times are in milliseconds; a
  reconnection delay need not be a whole number, so the client's clock and timer delays
  are reals. \<open>socket_OPEN\<close> stands for \<open>socket && socket.readyState === WebSocket.OPEN\<close>,
  \<open>thumb\<close> for the offsets \<open>setThumbPosition\<close> last wrote, in units of the thumb's
  travel, \<open>outbox\<close> for what \<open>socket.send\<close> was given.
\<close>

datatype ctimer_kind = StickTimer | ReconnectTimer

record ctimer =
  ctimer_id :: nat
  ctimer_kind :: ctimer_kind
  ctimer_armed :: real
  ctimer_delay :: real

datatype cmsg = SetMode string real | Stick stick real

record client =
  mode :: string
  stick :: stick
  isDragging :: bool
  activePointerId :: "nat option"
  thumb :: "real \<times> real"
  socket_OPEN :: bool
  lastStickSend :: real
  pendingStickTimeout :: "nat option"
  reconnectDelay :: real
  reconnectTimer :: "nat option"
  ctimers :: "ctimer list"
  next_ctimer :: nat
  outbox :: "cmsg list"
  cconsole :: "log_entry list"

definition UI_THROTTLE_MS :: real where
  "UI_THROTTLE_MS = 33"

definition MAX_RECONNECT_DELAY :: real where
  "MAX_RECONNECT_DELAY = 10000"

definition initial_client :: client where
  "initial_client =
     \<lparr>mode = ''automatic'', stick = initialStickState, isDragging = False,
      activePointerId = None, thumb = (0, 0),
      socket_OPEN = False, lastStickSend = 0, pendingStickTimeout = None,
      reconnectDelay = 1000, reconnectTimer = None, ctimers = [], next_ctimer = 0,
      outbox = [], cconsole = []\<rparr>"

definition window_setTimeout :: "ctimer_kind \<Rightarrow> real \<Rightarrow> real \<Rightarrow> client \<Rightarrow> nat \<times> client" where
  "window_setTimeout k now delay c =
     (next_ctimer c,
      c\<lparr>ctimers := ctimers c @ [\<lparr>ctimer_id = next_ctimer c, ctimer_kind = k,
                                   ctimer_armed = now, ctimer_delay = delay\<rparr>],
        next_ctimer := Suc (next_ctimer c)\<rparr>)"

text \<open>\<open>clearTimeout(handle)\<close>; the handle may be \<open>undefined\<close> or \<open>null\<close>.\<close>

definition window_clearTimeout :: "nat option \<Rightarrow> client \<Rightarrow> client" where
  "window_clearTimeout h c =
     (case h of
        None \<Rightarrow> c
      | Some i \<Rightarrow> c\<lparr>ctimers := filter (\<lambda>t. ctimer_id t \<noteq> i) (ctimers c)\<rparr>)"

subsection \<open>Applying stick data and modes\<close>

definition setThumbPosition :: "real \<Rightarrow> real \<Rightarrow> client \<Rightarrow> client" where
  "setThumbPosition a b c =
     c\<lparr>thumb := (real_of (clamp (Fin a) (- 1) 1), real_of (clamp (Fin (- b)) (- 1) 1))\<rparr>"

text \<open>\<open>applyStickData(stick, { fromServer })\<close>.\<close>

definition applyStickData :: "'a payload_scheme \<Rightarrow> bool \<Rightarrow> client \<Rightarrow> client" where
  "applyStickData p fromServer c =
     (let st = clientStick p;
          c1 = c\<lparr>stick := st\<rparr>
      in if \<not> isDragging c1 \<or> \<not> fromServer then setThumbPosition (stick_x st) (stick_y st) c1
         else c1)"

definition zero_payload :: payload where
  "zero_payload = \<lparr>px = JNum (Fin 0), py = JNum (Fin 0), pmag = JNum (Fin 0), pdeg = JNum (Fin 0)\<rparr>"

definition sendMessage :: "cmsg \<Rightarrow> client \<Rightarrow> client" where
  "sendMessage m c = (if \<not> socket_OPEN c then c else c\<lparr>outbox := outbox c @ [m]\<rparr>)"

text \<open>\<open>setMode(mode, { fromServer })\<close>.\<close>

definition setMode :: "real \<Rightarrow> jsval \<Rightarrow> bool \<Rightarrow> client \<Rightarrow> client" where
  "setMode now m fromServer c =
     (if \<not> is_string m ''automatic'' \<and> \<not> is_string m ''manual'' then c
      else (let c1 = c\<lparr>mode := string_of m\<rparr>;
                c2 = (if mode c1 \<noteq> ''manual'' \<and> \<not> isDragging c1
                      then applyStickData zero_payload False c1 else c1)
            in if \<not> fromServer then sendMessage (SetMode (mode c2) now) c2 else c2))"

subsection \<open>Throttled stick sending\<close>

definition sendStickPayload :: "real \<Rightarrow> client \<Rightarrow> client" where
  "sendStickPayload now c =
     (if \<not> socket_OPEN c then c
      else sendMessage (Stick (stick c) now) (c\<lparr>lastStickSend := now, pendingStickTimeout := None\<rparr>))"

definition queueStickSend :: "real \<Rightarrow> client \<Rightarrow> client" where
  "queueStickSend now c =
     (if now - lastStickSend c \<ge> UI_THROTTLE_MS then sendStickPayload now c
      else if pendingStickTimeout c \<noteq> None then c
      else (let (h, c1) = window_setTimeout StickTimer now (UI_THROTTLE_MS - (now - lastStickSend c)) c
            in c1\<lparr>pendingStickTimeout := Some h\<rparr>))"

definition resetStick :: "real \<Rightarrow> client \<Rightarrow> client" where
  "resetStick now c = queueStickSend now (applyStickData zero_payload False c)"

subsection \<open>Pointer input and the mode switch\<close>

text \<open>
  \<open>handlePointerEvent(event)\<close>; \<open>rawX\<close> and \<open>rawY\<close> are the pointer's offsets from the
  centre of the pad divided by its radius, which the handler reads from the page.
\<close>

definition handlePointerEvent :: "real \<Rightarrow> real \<Rightarrow> real \<Rightarrow> client \<Rightarrow> client" where
  "handlePointerEvent now rawX rawY c =
     (if mode c \<noteq> ''manual'' then c
      else (let distance = Math_hypot rawX rawY;
                rawX' = (if distance > 1 then rawX / distance else rawX);
                rawY' = (if distance > 1 then rawY / distance else rawY);
                normalizedX = real_of (clamp (Fin rawX') (- 1) 1);
                normalizedY = real_of (clamp (Fin (- rawY')) (- 1) 1);
                magnitude = real_of (clamp (Fin (Math_hypot normalizedX normalizedY)) 0 1);
                degrees = calculateJoystickDegrees normalizedX normalizedY;
                nextStick = \<lparr>px = JNum (Fin normalizedX), py = JNum (Fin normalizedY),
                             pmag = JNum (Fin magnitude), pdeg = JNum (Fin degrees)\<rparr>
            in queueStickSend now (applyStickData nextStick False c)))"

text \<open>The \<open>pointerdown\<close>, \<open>pointermove\<close>, \<open>pointerup\<close>/\<open>pointercancel\<close> and \<open>lostpointercapture\<close> listeners.\<close>

definition on_pointerdown :: "real \<Rightarrow> nat \<Rightarrow> real \<Rightarrow> real \<Rightarrow> client \<Rightarrow> client" where
  "on_pointerdown now pointerId rawX rawY c =
     (if mode c \<noteq> ''manual'' then c
      else handlePointerEvent now rawX rawY
             (c\<lparr>isDragging := True, activePointerId := Some pointerId\<rparr>))"

definition on_pointermove :: "real \<Rightarrow> nat \<Rightarrow> real \<Rightarrow> real \<Rightarrow> client \<Rightarrow> client" where
  "on_pointermove now pointerId rawX rawY c =
     (if \<not> isDragging c \<or> Some pointerId \<noteq> activePointerId c then c
      else handlePointerEvent now rawX rawY c)"

definition endPointer :: "real \<Rightarrow> nat \<Rightarrow> client \<Rightarrow> client" where
  "endPointer now pointerId c =
     (if Some pointerId \<noteq> activePointerId c then c
      else resetStick now (c\<lparr>isDragging := False, activePointerId := None\<rparr>))"

definition on_lostpointercapture :: "real \<Rightarrow> client \<Rightarrow> client" where
  "on_lostpointercapture now c =
     (if isDragging c then resetStick now (c\<lparr>isDragging := False, activePointerId := None\<rparr>)
      else c)"

text \<open>The \<open>change\<close> listener of the mode switch.\<close>

definition on_modeSwitch_change :: "real \<Rightarrow> bool \<Rightarrow> client \<Rightarrow> client" where
  "on_modeSwitch_change now checked c =
     (let desiredMode = (if checked then ''manual'' else ''automatic'');
          c1 = setMode now (JStr desiredMode NaN) False c
      in if desiredMode = ''automatic'' then resetStick now c1 else c1)"

subsection \<open>Connection life cycle\<close>

definition scheduleReconnect :: "real \<Rightarrow> client \<Rightarrow> client" where
  "scheduleReconnect now c =
     (let c1 = window_clearTimeout (reconnectTimer c) c;
          (h, c2) = window_setTimeout ReconnectTimer now (reconnectDelay c1) c1
      in c2\<lparr>reconnectTimer := Some h\<rparr>)"

text \<open>
  \<open>connectSocket()\<close>; \<open>throws\<close> says whether \<open>new WebSocket(url)\<close> throws. A socket just
  created is not open yet.
\<close>

definition connectSocket :: "real \<Rightarrow> bool \<Rightarrow> client \<Rightarrow> client" where
  "connectSocket now throws c =
     (let c1 = window_clearTimeout (reconnectTimer c) c
      in if throws then scheduleReconnect now (c1\<lparr>cconsole := cconsole c1 @ [Error ''[WS] Connection failed'']\<rparr>)
         else c1\<lparr>socket_OPEN := False\<rparr>)"

text \<open>The socket's \<open>open\<close> and \<open>close\<close> listeners.\<close>

definition on_open :: "real \<Rightarrow> client \<Rightarrow> client" where
  "on_open now c =
     (let c1 = c\<lparr>socket_OPEN := True, reconnectDelay := 1000\<rparr>;
          c2 = (if mode c1 = ''manual'' then queueStickSend now c1 else resetStick now c1)
      in sendMessage (SetMode (mode c2) now) c2)"

definition on_socket_close :: "real \<Rightarrow> client \<Rightarrow> client" where
  "on_socket_close now c = scheduleReconnect now (c\<lparr>socket_OPEN := False\<rparr>)"

text \<open>
  The event loop runs the callback of the pending timer \<open>h\<close> at clock \<open>now\<close>: nothing
  happens when \<open>h\<close> is not pending or its delay has not elapsed.
\<close>

definition fire_ctimer :: "real \<Rightarrow> bool \<Rightarrow> nat \<Rightarrow> client \<Rightarrow> client" where
  "fire_ctimer now throws h c =
     (case find (\<lambda>t. ctimer_id t = h) (ctimers c) of
        None \<Rightarrow> c
      | Some t \<Rightarrow>
          (if now < ctimer_armed t + ctimer_delay t then c
           else (let c1 = c\<lparr>ctimers := filter (\<lambda>t. ctimer_id t \<noteq> h) (ctimers c)\<rparr>
                 in case ctimer_kind t of
                      StickTimer \<Rightarrow> sendStickPayload now (c1\<lparr>pendingStickTimeout := None\<rparr>)
                    | ReconnectTimer \<Rightarrow>
                        connectSocket now throws
                          (c1\<lparr>reconnectDelay := min (reconnectDelay c1 * 1.5) MAX_RECONNECT_DELAY\<rparr>))))"

subsection \<open>Messages from the server\<close>

text \<open>
  A frame from the server: text that fails inside the \<open>try\<close> (\<open>JSON.parse\<close> throws, or
  the value is \<open>null\<close>), or a value with the fields the listener reads. \<open>smsg_stick\<close> is
  \<open>None\<close> when \<open>message.stick\<close> is falsy.
\<close>

record smessage =
  smsg_type :: jsval
  smsg_mode :: jsval
  smsg_stick :: "payload option"

datatype sframe = SBad | SObject smessage

text \<open>Truthiness of a JavaScript value.\<close>

fun truthy :: "jsval \<Rightarrow> bool" where
  "truthy JUndefined = False"
| "truthy JNull = False"
| "truthy (JBool b) = b"
| "truthy (JNum (Fin r)) = (r \<noteq> 0)"
| "truthy (JNum NaN) = False"
| "truthy (JNum n) = True"
| "truthy (JStr v n) = (v \<noteq> [])"
| "truthy (JObject n) = True"

definition on_server_message :: "real \<Rightarrow> sframe \<Rightarrow> client \<Rightarrow> client" where
  "on_server_message now f c =
     (case f of
        SBad \<Rightarrow> c\<lparr>cconsole := cconsole c @ [Error ''[WS] Failed to parse message'']\<rparr>
      | SObject m \<Rightarrow>
          (if is_string (smsg_type m) ''state'' then
             (let c1 = (if truthy (smsg_mode m) then setMode now (smsg_mode m) True c else c)
              in case smsg_stick m of Some p \<Rightarrow> applyStickData p True c1 | None \<Rightarrow> c1)
           else if is_string (smsg_type m) ''mode'' then
             (if truthy (smsg_mode m) then setMode now (smsg_mode m) True c else c)
           else if is_string (smsg_type m) ''stick'' then
             (case smsg_stick m of Some p \<Rightarrow> applyStickData p True c | None \<Rightarrow> c)
           else c\<lparr>cconsole := cconsole c @ [Warn ''[WS] Unhandled message type'']\<rparr>))"

subsection \<open>Runs of the client\<close>

text \<open>
  What the event loop can hand to the client script. \<open>page_load\<close> is the end of the
  script: \<open>setMode(state.mode, { fromServer: true })\<close> and \<open>connectSocket()\<close>.
\<close>

datatype cevent =
    SocketOpen real
  | SocketClose real
  | ServerMessage real sframe
  | CTimer real bool nat
  | ModeSwitch real bool
  | PointerDown real nat real real
  | PointerMove real nat real real
  | PointerEnd real nat
  | LostPointerCapture real

fun cstep :: "client \<Rightarrow> cevent \<Rightarrow> client" where
  "cstep c (SocketOpen now) = on_open now c"
| "cstep c (SocketClose now) = on_socket_close now c"
| "cstep c (ServerMessage now f) = on_server_message now f c"
| "cstep c (CTimer now throws h) = fire_ctimer now throws h c"
| "cstep c (ModeSwitch now checked) = on_modeSwitch_change now checked c"
| "cstep c (PointerDown now pointerId rawX rawY) = on_pointerdown now pointerId rawX rawY c"
| "cstep c (PointerMove now pointerId rawX rawY) = on_pointermove now pointerId rawX rawY c"
| "cstep c (PointerEnd now pointerId) = endPointer now pointerId c"
| "cstep c (LostPointerCapture now) = on_lostpointercapture now c"

definition crun :: "client \<Rightarrow> cevent list \<Rightarrow> client" where
  "crun c evs = foldl cstep c evs"

definition page_load :: "real \<Rightarrow> bool \<Rightarrow> client" where
  "page_load now throws =
     connectSocket now throws (setMode now (JStr (mode initial_client) NaN) True initial_client)"

text \<open>An event that is not a pong, a connection, a close of the socket \<open>ws\<close>, nor a heartbeat tick.\<close>

fun silent :: "nat \<Rightarrow> event \<Rightarrow> bool" where
  "silent ws (Pong w) = (w \<noteq> ws)"
| "silent ws (Connection w) = (w \<noteq> ws)"
| "silent ws (Close w) = (w \<noteq> ws)"
| "silent ws Heartbeat = False"
| "silent ws e = True"

subsection \<open>The wire format from client to server\<close>

text \<open>
  The frame that carries what \<open>sendMessage\<close> was given:
  \<open>{type: 'setMode', mode, ts}\<close> or \<open>{type: 'stick', x, y, mag, deg, ts}\<close>. The strings
  \<open>'setMode'\<close>, \<open>'stick'\<close>, \<open>'automatic'\<close> and \<open>'manual'\<close> are not numbers, so \<open>Number\<close>
  yields \<open>NaN\<close> on them.
\<close>

fun frame_of :: "cmsg \<Rightarrow> frame" where
  "frame_of (SetMode m ts) =
     Object \<lparr>px = JUndefined, py = JUndefined, pmag = JUndefined, pdeg = JUndefined,
             mtype = JStr ''setMode'' NaN, mmode = JStr m NaN\<rparr>"
| "frame_of (Stick st ts) =
     Object \<lparr>px = JNum (Fin (stick_x st)), py = JNum (Fin (stick_y st)),
             pmag = JNum (Fin (stick_mag st)), pdeg = JNum (Fin (stick_deg st)),
             mtype = JStr ''stick'' NaN, mmode = JUndefined\<rparr>"

text \<open>The configuration of the reference deployment.\<close>

definition default_config :: config where
  "default_config = \<lparr>NODE_RED_ENABLED = True, NODE_RED_RETRY_COOLDOWN_MS = 10000\<rparr>"

section \<open>Properties\<close>

subsection \<open>Arithmetic of the remainder and of the angle\<close>

lemma js_rem_nonneg_range:
  assumes "0 \<le> a" "0 < b"
  shows "0 \<le> js_rem a b \<and> js_rem a b < b"
proof -
  have q: "0 \<le> a / b" using assms by simp
  have t: "trunc (a / b) = \<lfloor>a / b\<rfloor>" using q by (simp add: trunc_def)
  have 1: "of_int \<lfloor>a / b\<rfloor> \<le> a / b" by (rule of_int_floor_le)
  have 2: "a / b < of_int \<lfloor>a / b\<rfloor> + 1" by linarith
  have e: "b * (a / b) = a" using assms(2) by simp
  have "b * of_int \<lfloor>a / b\<rfloor> \<le> b * (a / b)"
    using assms(2) by (intro mult_left_mono 1) simp
  then have 3: "b * of_int \<lfloor>a / b\<rfloor> \<le> a" using e by simp
  have "b * (a / b) < b * (of_int \<lfloor>a / b\<rfloor> + 1)"
    using assms(2) by (intro mult_strict_left_mono 2)
  then have 4: "a < b * (of_int \<lfloor>a / b\<rfloor> + 1)" using e by simp
  show ?thesis unfolding js_rem_def t using 3 4 by (simp add: algebra_simps)
qed

lemma js_rem_abs_lt:
  assumes "0 < b"
  shows "- b < js_rem a b \<and> js_rem a b < b"
proof (cases "0 \<le> a")
  case True
  then show ?thesis using js_rem_nonneg_range[OF True assms] assms by linarith
next
  case False
  then have q: "a / b < 0" using assms by (simp add: field_simps)
  have t: "trunc (a / b) = \<lceil>a / b\<rceil>" using q by (simp add: trunc_def)
  have 1: "a / b \<le> of_int \<lceil>a / b\<rceil>" by (rule le_of_int_ceiling)
  have 2: "of_int \<lceil>a / b\<rceil> - 1 < a / b" by linarith
  have e: "b * (a / b) = a" using assms by simp
  have "b * (a / b) \<le> b * of_int \<lceil>a / b\<rceil>"
    using assms by (intro mult_left_mono 1) simp
  then have 3: "a \<le> b * of_int \<lceil>a / b\<rceil>" using e by simp
  have "b * (of_int \<lceil>a / b\<rceil> - 1) < b * (a / b)"
    using assms by (intro mult_strict_left_mono 2)
  then have 4: "b * (of_int \<lceil>a / b\<rceil> - 1) < a" using e by simp
  have 5: "\<lceil>a / b\<rceil> \<le> 0" using q by simp
  have 6: "b * of_int \<lceil>a / b\<rceil> \<le> 0" using 5 assms by (simp add: mult_le_0_iff)
  show ?thesis unfolding js_rem_def t using 3 4 6 assms by (simp add: algebra_simps)
qed

lemma js_rem_small: 
  assumes "0 \<le> a" "a < b"
  shows "js_rem a b = a"
proof -
  have "\<lfloor>a / b\<rfloor> = 0" using assms by (simp add: floor_eq_iff)
  then show ?thesis using assms by (simp add: js_rem_def trunc_def)
qed

lemma wrap_range:
  "0 \<le> js_rem (js_rem d 360 + 360) 360 \<and> js_rem (js_rem d 360 + 360) 360 < 360"
  using js_rem_abs_lt[of 360 d] js_rem_nonneg_range[of "js_rem d 360 + 360" 360] by simp

lemma Math_atan2_bounds: "- pi \<le> Math_atan2 b a \<and> Math_atan2 b a \<le> pi"
proof -
  have b: "- (pi / 2) < arctan (b / a) \<and> arctan (b / a) < pi / 2" by (rule arctan_bounded)
  have n: "a < 0 \<Longrightarrow> 0 \<le> b \<Longrightarrow> arctan (b / a) \<le> 0"
    by (simp add: arctan_le_zero_iff divide_le_0_iff)
  have p: "a < 0 \<Longrightarrow> b < 0 \<Longrightarrow> 0 \<le> arctan (b / a)"
    by (simp add: zero_le_arctan_iff zero_le_divide_iff)
  show ?thesis using b n p pi_gt_zero by (auto simp: Math_atan2_def)
qed

lemma atan2_degrees_range:
  "0 \<le> js_rem (Math_atan2 b a * (180 / pi) + 360) 360
   \<and> js_rem (Math_atan2 b a * (180 / pi) + 360) 360 < 360"
proof -
  have k: "0 < 180 / pi" by simp
  have "- pi * (180 / pi) \<le> Math_atan2 b a * (180 / pi)"
    using Math_atan2_bounds[of b a] k by (intro mult_right_mono) auto
  then have lo: "- 180 \<le> Math_atan2 b a * (180 / pi)" by simp
  then have "0 \<le> Math_atan2 b a * (180 / pi) + 360" by linarith
  then show ?thesis by (intro js_rem_nonneg_range) auto
qed

lemma sanitizeNumber_range: "- 1 \<le> sanitizeNumber v \<and> sanitizeNumber v \<le> 1"
  by (simp add: sanitizeNumber_def Let_def)

lemma sanitizeNumber_finite: "toNumber v = Fin a \<Longrightarrow> sanitizeNumber v = max (- 1) (min 1 a)"
  by (simp add: sanitizeNumber_def)

lemma normalizeStickPayload_range:
  "- 1 \<le> stick_x (normalizeStickPayload p) \<and> stick_x (normalizeStickPayload p) \<le> 1
   \<and> - 1 \<le> stick_y (normalizeStickPayload p) \<and> stick_y (normalizeStickPayload p) \<le> 1
   \<and> 0 \<le> stick_mag (normalizeStickPayload p) \<and> stick_mag (normalizeStickPayload p) \<le> 1
   \<and> 0 \<le> stick_deg (normalizeStickPayload p) \<and> stick_deg (normalizeStickPayload p) < 360"
  using sanitizeNumber_range[of "px p"] sanitizeNumber_range[of "py p"]
    wrap_range[of "real_of (toNumber (pdeg p))"]
    atan2_degrees_range[of "sanitizeNumber (py p)" "sanitizeNumber (px p)"]
  by (simp add: normalizeStickPayload_def normalizeStickPayload_with_def Let_def)

section \<open>The normalizer outside the unit disc\<close>

lemma Math_hypot_dominates: "hypot_dominates Math_hypot"
proof -
  have "\<bar>a\<bar> \<le> Math_hypot a b" and "\<bar>b\<bar> \<le> Math_hypot a b" for a b :: real
  proof -
    have "sqrt (a\<^sup>2) \<le> sqrt (a\<^sup>2 + b\<^sup>2)" by (rule real_sqrt_le_mono) simp
    then show "\<bar>a\<bar> \<le> Math_hypot a b" by (simp add: Math_hypot_def)
    have "sqrt (b\<^sup>2) \<le> sqrt (a\<^sup>2 + b\<^sup>2)" by (rule real_sqrt_le_mono) simp
    then show "\<bar>b\<bar> \<le> Math_hypot a b" by (simp add: Math_hypot_def)
  qed
  then show ?thesis by (simp add: hypot_dominates_def)
qed

lemma clamp_saturated:
  assumes "1 \<le> \<bar>a\<bar>"
  shows "\<bar>max (- 1) (min 1 a)\<bar> = (1::real)"
proof (cases "0 \<le> a")
  case True
  then have "min 1 a = 1" using assms by simp
  then show ?thesis by simp
next
  case False
  then have "a \<le> - 1" using assms by simp
  then have "min 1 a = a" "max (- 1) a = - 1" by simp_all
  then show ?thesis by simp
qed

text \<open>
  C1 (as the code has it). For a payload that carries no finite \<open>mag\<close> and whose
  coordinates are the finite numbers \<open>a\<close> and \<open>b\<close> with \<open>a\<^sup>2 + b\<^sup>2 > 1\<close>, the server's
  normalizer clamps each coordinate on its own into \<open>[-1, 1]\<close> (it does not rescale the
  vector onto the unit circle) and stores as \<open>mag\<close> what \<open>Math.hypot\<close> returns on the
  clamped coordinates, cut at 1. That is 1 whenever \<open>a\<close> or \<open>b\<close> is at least 1 in
  magnitude, for every \<open>Math.hypot\<close> that is never below the magnitudes of its arguments;
  when both coordinates lie strictly inside \<open>(-1, 1)\<close> the rounded root decides, and it
  can fall just below 1.
\<close>

theorem normalizeStickPayload_outside_unit_disc:
  assumes "toNumber (px p) = Fin a" and "toNumber (py p) = Fin b"
    and "1 < a\<^sup>2 + b\<^sup>2" and "\<not> Number_isFinite (pmag p)"
    and "hypot_dominates hypot"
  shows "stick_x (normalizeStickPayload_with hypot p) = max (- 1) (min 1 a)
         \<and> stick_y (normalizeStickPayload_with hypot p) = max (- 1) (min 1 b)
         \<and> stick_mag (normalizeStickPayload_with hypot p)
           = max 0 (min 1 (hypot (max (- 1) (min 1 a)) (max (- 1) (min 1 b))))
         \<and> (1 \<le> \<bar>a\<bar> \<or> 1 \<le> \<bar>b\<bar> \<longrightarrow> stick_mag (normalizeStickPayload_with hypot p) = 1)"
proof -
  let ?x = "max (- 1) (min 1 a)" and ?y = "max (- 1) (min 1 b)"
  have f: "stick_x (normalizeStickPayload_with hypot p) = ?x"
    "stick_y (normalizeStickPayload_with hypot p) = ?y"
    "stick_mag (normalizeStickPayload_with hypot p) = max 0 (min 1 (hypot ?x ?y))"
    using assms(1,2,4) by (simp_all add: normalizeStickPayload_with_def Let_def sanitizeNumber_finite)
  have d: "max \<bar>?x\<bar> \<bar>?y\<bar> \<le> hypot ?x ?y"
    using assms(5) unfolding hypot_dominates_def by blast
  have m: "max 0 (min 1 (hypot ?x ?y)) = 1" if "1 \<le> \<bar>a\<bar> \<or> 1 \<le> \<bar>b\<bar>"
  proof -
    have "\<bar>?x\<bar> = 1 \<or> \<bar>?y\<bar> = 1"
      using that clamp_saturated[of a] clamp_saturated[of b] by blast
    then have "1 \<le> max \<bar>?x\<bar> \<bar>?y\<bar>" by (auto simp only: le_max_iff_disj order_refl)
    then have "1 \<le> hypot ?x ?y" using d by (rule order_trans)
    then show ?thesis by (simp only: min_absorb1 max_absorb2 zero_le_one)
  qed
  show ?thesis unfolding f using m by blast
qed

theorem normalizeStickPayload_outside_unit_disc_witness:
  "hypot_dominates Math_hypot
   \<and> stick_x (normalizeStickPayload_with Math_hypot
      \<lparr>px = JNum (Fin 2), py = JNum (Fin (- 2)), pmag = JUndefined, pdeg = JUndefined\<rparr>) = 1
   \<and> stick_y (normalizeStickPayload_with Math_hypot
      \<lparr>px = JNum (Fin 2), py = JNum (Fin (- 2)), pmag = JUndefined, pdeg = JUndefined\<rparr>) = - 1
   \<and> stick_mag (normalizeStickPayload_with Math_hypot
      \<lparr>px = JNum (Fin 2), py = JNum (Fin (- 2)), pmag = JUndefined, pdeg = JUndefined\<rparr>) = 1"
proof -
  let ?p = "\<lparr>px = JNum (Fin 2), py = JNum (Fin (- 2)), pmag = JUndefined, pdeg = JUndefined\<rparr>"
  have x: "toNumber (px ?p) = Fin 2" and y: "toNumber (py ?p) = Fin (- 2)" by simp_all
  have o: "(1::real) < 2\<^sup>2 + (- 2)\<^sup>2" by simp
  have n: "\<not> Number_isFinite (pmag ?p)" by simp
  note t = normalizeStickPayload_outside_unit_disc[OF x y o n Math_hypot_dominates]
  have s: "(1::real) \<le> \<bar>2\<bar> \<or> (1::real) \<le> \<bar>- 2\<bar>" by simp
  have "stick_x (normalizeStickPayload_with Math_hypot ?p) = max (- 1) (min 1 2)"
    and "stick_y (normalizeStickPayload_with Math_hypot ?p) = max (- 1) (min 1 (- 2))"
    and "stick_mag (normalizeStickPayload_with Math_hypot ?p) = 1"
    using t s by blast+
  then show ?thesis using Math_hypot_dominates by simp
qed

text \<open>
  C1 as the specification states it fails: the payload \<open>{x: 2, y: -2}\<close> is normalized to
  \<open>{x: 1, y: -1, mag: 1, deg: 315}\<close>, a vector of length \<open>sqrt 2\<close>, not to
  \<open>{x: 0.707, y: -0.707, mag: 1, deg: 135}\<close>.
\<close>

theorem normalizeStickPayload_unit_circle_counterexample:
  "normalizeStickPayload
      \<lparr>px = JNum (Fin 2), py = JNum (Fin (- 2)), pmag = JUndefined, pdeg = JUndefined\<rparr>
     = \<lparr>stick_x = 1, stick_y = - 1, stick_mag = 1, stick_deg = 315\<rparr>
   \<and> (stick_x (normalizeStickPayload
      \<lparr>px = JNum (Fin 2), py = JNum (Fin (- 2)), pmag = JUndefined, pdeg = JUndefined\<rparr>))\<^sup>2
     + (stick_y (normalizeStickPayload
      \<lparr>px = JNum (Fin 2), py = JNum (Fin (- 2)), pmag = JUndefined, pdeg = JUndefined\<rparr>))\<^sup>2 \<noteq> 1"
proof -
  have a: "Math_atan2 (- 1) 1 = - (pi / 4)"
    by (simp add: Math_atan2_def arctan_minus arctan_one)
  have h: "min 1 (Math_hypot 1 (- 1)) = 1" by (simp add: Math_hypot_def)
  have "normalizeStickPayload
      \<lparr>px = JNum (Fin 2), py = JNum (Fin (- 2)), pmag = JUndefined, pdeg = JUndefined\<rparr>
     = \<lparr>stick_x = 1, stick_y = - 1, stick_mag = 1, stick_deg = 315\<rparr>"
    by (simp add: normalizeStickPayload_def normalizeStickPayload_with_def sanitizeNumber_def Let_def h a js_rem_small)
  then show ?thesis by simp
qed

section \<open>The two derivations of the angle\<close>

text \<open>
  C2. The server and the client do not derive the same angle from \<open>(x, y)\<close>: for the
  stick message \<open>{x: 1, y: 0}\<close> without \<open>deg\<close> the server stores \<open>deg = 0\<close> (the
  mathematical angle), while the client's derivation for the same vector is \<open>90\<close>
  (clockwise from the vertical axis).
\<close>

theorem server_client_deg_differ:
  "stick_deg (normalizeStickPayload
      \<lparr>px = JNum (Fin 1), py = JNum (Fin 0), pmag = JUndefined, pdeg = JUndefined\<rparr>) = 0
   \<and> stick_deg (clientStick
      \<lparr>px = JNum (Fin 1), py = JNum (Fin 0), pmag = JUndefined, pdeg = JUndefined\<rparr>) = 90
   \<and> calculateJoystickDegrees 1 0 = 90"
proof -
  have a: "Math_atan2 0 1 = 0" by (simp add: Math_atan2_def)
  have r: "js_rem 360 360 = 0" by (simp add: js_rem_def trunc_def)
  have e: "\<not> 1 < Number_EPSILON" by (simp add: Number_EPSILON_def)
  have f: "\<lfloor>450 / 360 :: real\<rfloor> = 1" by (simp add: floor_eq_iff)
  have r2: "js_rem 450 360 = 90" by (simp add: js_rem_def trunc_def f)
  have c: "calculateJoystickDegrees 1 0 = 90"
    by (simp add: calculateJoystickDegrees_def e a normalizeDegrees_def js_rem_small r2)
  have s: "stick_deg (normalizeStickPayload
      \<lparr>px = JNum (Fin 1), py = JNum (Fin 0), pmag = JUndefined, pdeg = JUndefined\<rparr>) = 0"
    by (simp add: normalizeStickPayload_def normalizeStickPayload_with_def sanitizeNumber_def Let_def a r)
  have "stick_deg (clientStick
      \<lparr>px = JNum (Fin 1), py = JNum (Fin 0), pmag = JUndefined, pdeg = JUndefined\<rparr>) = 90"
    by (simp add: clientStick_def Let_def c)
  then show ?thesis using c s by simp
qed

section \<open>The state store and the message handler\<close>

lemma postToNodeRed_store:
  "state_mode (postToNodeRed cfg now b s) = state_mode s"
  "state_stick (postToNodeRed cfg now b s) = state_stick s"
  "state_ts (postToNodeRed cfg now b s) = state_ts s"
  "clients (postToNodeRed cfg now b s) = clients s"
  "sent (postToNodeRed cfg now b s) = sent s"
  "console (postToNodeRed cfg now b s) = console s"
  by (simp_all add: postToNodeRed_def)

lemma dispatch_store:
  "state_mode (dispatch cfg now s) = state_mode s"
  "state_stick (dispatch cfg now s) = state_stick s"
  "state_ts (dispatch cfg now s) = state_ts s"
  "clients (dispatch cfg now s) = clients s"
  "sent (dispatch cfg now s) = sent s"
  "console (dispatch cfg now s) = console s"
  by (simp_all add: dispatch_def Let_def postToNodeRed_store)

lemma scheduleNodeRedPush_store:
  "state_mode (scheduleNodeRedPush cfg now s) = state_mode s"
  "state_stick (scheduleNodeRedPush cfg now s) = state_stick s"
  "state_ts (scheduleNodeRedPush cfg now s) = state_ts s"
  "clients (scheduleNodeRedPush cfg now s) = clients s"
  "sent (scheduleNodeRedPush cfg now s) = sent s"
  "console (scheduleNodeRedPush cfg now s) = console s"
  by (simp_all add: scheduleNodeRedPush_def Let_def dispatch_store setTimeout_def)

lemma updateState_store:
  "state_mode (updateState cfg now nm nst s) = (case nm of Some m \<Rightarrow> m | None \<Rightarrow> state_mode s)"
  "state_stick (updateState cfg now nm nst s) = (case nst of Some st \<Rightarrow> st | None \<Rightarrow> state_stick s)"
  "state_ts (updateState cfg now nm nst s) = now"
  "clients (updateState cfg now nm nst s) = clients s"
  "sent (updateState cfg now nm nst s) = sent s"
  "console (updateState cfg now nm nst s) = console s"
  by (simp_all add: updateState_def scheduleNodeRedPush_store)

lemma broadcast_store:
  "state_mode (broadcast m s) = state_mode s"
  "state_stick (broadcast m s) = state_stick s"
  "state_ts (broadcast m s) = state_ts s"
  "clients (broadcast m s) = clients s"
  "console (broadcast m s) = console s"
  by (simp_all add: broadcast_def)

lemma postToNodeRed_settled_store:
  "state_mode (postToNodeRed_settled cfg now r s) = state_mode s"
  "state_stick (postToNodeRed_settled cfg now r s) = state_stick s"
  "clients (postToNodeRed_settled cfg now r s) = clients s"
  by (simp_all add: postToNodeRed_settled_def Let_def log_def setTimeout_def clearTimeout_def
      split: outcome.splits option.splits)

lemma fire_timer_store:
  "state_mode (fire_timer cfg now h s) = state_mode s"
  "state_stick (fire_timer cfg now h s) = state_stick s"
  "clients (fire_timer cfg now h s) = clients s"
  by (simp_all add: fire_timer_def Let_def dispatch_store scheduleNodeRedPush_store clearTimeout_def
      split: option.splits timer_kind.splits)

lemma validateMode_string_of:
  "validateMode v \<Longrightarrow> string_of v = ''automatic'' \<or> string_of v = ''manual''"
  by (cases v) (auto simp: validateMode_def)


lemma on_message_stick_in_range:
  "stick_in_range (state_stick s) \<Longrightarrow> stick_in_range (state_stick (on_message cfg now f s))"
proof (cases f)
  case (Object m)
  assume r: "stick_in_range (state_stick s)"
  have n: "stick_in_range (normalizeStickPayload m)"
    using normalizeStickPayload_range[of m] by (simp add: stick_in_range_def)
  show ?thesis using r n Object
    by (simp add: on_message_def Let_def broadcast_store updateState_store log_def)
qed (simp_all add: on_message_def log_def)

lemma on_message_mode_valid:
  "state_mode s \<in> {''automatic'', ''manual''}
   \<Longrightarrow> state_mode (on_message cfg now f s) \<in> {''automatic'', ''manual''}"
proof (cases f)
  case (Object m)
  assume r: "state_mode s \<in> {''automatic'', ''manual''}"
  show ?thesis using r Object validateMode_string_of[of "mmode m"]
    by (auto simp add: on_message_def Let_def broadcast_store updateState_store log_def)
qed (simp_all add: on_message_def log_def)

lemma step_state_in_range: "state_in_range s \<Longrightarrow> state_in_range (step cfg s e)"
proof (cases e)
  case (Message now f)
  assume "state_in_range s"
  then show ?thesis using Message on_message_stick_in_range[of s cfg now f]
      on_message_mode_valid[of s cfg now f]
    by (simp add: state_in_range_def)
next
  case Heartbeat
  assume "state_in_range s"
  then show ?thesis using Heartbeat
    by (simp add: state_in_range_def heartbeat_def split: prod.splits)
qed (simp_all add: state_in_range_def on_connection_def on_pong_def on_close_def
      fire_timer_store postToNodeRed_settled_store)

lemma startup_state_in_range: "state_in_range (startup cfg t0)"
  by (simp add: startup_def state_in_range_def scheduleNodeRedPush_store initial_server_def
      initialStickState_def stick_in_range_def)

lemma run_state_in_range: "state_in_range s \<Longrightarrow> state_in_range (run cfg s evs)"
  unfolding run_def
  by (induction evs arbitrary: s) (simp_all add: step_state_in_range)

text \<open>
  C4. After start-up and any sequence of events (frames from clients with whatever
  fields, connections, pongs, closes, heartbeat ticks, timers, ends of downstream
  requests) the shared state has \<open>x, y\<close> in \<open>[-1, 1]\<close>, \<open>mag\<close> in \<open>[0, 1]\<close>, \<open>deg\<close> in
  \<open>[0, 360)\<close> and a mode that is \<open>automatic\<close> or \<open>manual\<close>.
\<close>

theorem shared_state_invariant: "state_in_range (run cfg (startup cfg t0) evs)"
  by (rule run_state_in_range) (rule startup_state_in_range)





lemma on_message_NonObject: "on_message cfg now NonObject s = s"
  by (simp add: on_message_def)

text \<open>
  C5 (as the code has it). A frame that is not JSON, or an object (or array) whose
  \<open>type\<close> is neither \<open>'setMode'\<close> nor \<open>'stick'\<close>, or a \<open>setMode\<close> message with a mode other
  than \<open>automatic\<close> and \<open>manual\<close>, changes nothing but the console, which gets one
  warning: the shared state, what was sent to the clients and downstream, the timers and
  the registry (so the sender stays registered) are as before. A frame that is JSON but
  \<open>null\<close> or not an object (a number, a string, a boolean) is dropped in the same way,
  but silently: nothing at all changes and no warning is logged.
\<close>

theorem bad_frame_ignored:
  "(rejected f \<longrightarrow> (\<exists>w. on_message cfg now f s = s\<lparr>console := console s @ [Warn w]\<rparr>))
   \<and> on_message cfg now NonObject s = s"
proof -
  have "\<exists>w. on_message cfg now f s = s\<lparr>console := console s @ [Warn w]\<rparr>" if r: "rejected f"
  proof (cases f)
    case Malformed
    have "on_message cfg now Malformed s
          = s\<lparr>console := console s @ [Warn ''[WS] Invalid JSON received'']\<rparr>"
      by (simp add: on_message_def log_def)
    then show ?thesis using Malformed by blast
  next
    case NonObject
    then show ?thesis using r by simp
  next
    case (Object m)
    show ?thesis
    proof (cases "is_string (mtype m) ''setMode''")
      case True
      then have "on_message cfg now (Object m) s
                 = s\<lparr>console := console s @ [Warn ''[WS] Invalid mode received'']\<rparr>"
        using r Object by (simp add: on_message_def log_def)
      then show ?thesis using Object by blast
    next
      case False
      then have "on_message cfg now (Object m) s
                 = s\<lparr>console := console s @ [Warn ''[WS] Unknown message type'']\<rparr>"
        using r Object by (simp add: on_message_def log_def)
      then show ?thesis using Object by blast
    qed
  qed
  then show ?thesis by (simp add: on_message_NonObject)
qed

theorem bad_frame_ignored_witness:
  "rejected (frame_of (SetMode ''turbo'' 5))
   \<and> (\<exists>w. on_message default_config 1100 (frame_of (SetMode ''turbo'' 5)) (startup default_config 1000)
          = (startup default_config 1000)
              \<lparr>console := console (startup default_config 1000) @ [Warn w]\<rparr>)
   \<and> rejected Malformed
   \<and> (\<exists>w. on_message default_config 1100 Malformed (startup default_config 1000)
          = (startup default_config 1000)
              \<lparr>console := console (startup default_config 1000) @ [Warn w]\<rparr>)
   \<and> on_message default_config 1100 NonObject (startup default_config 1000)
     = startup default_config 1000"
proof -
  have a: "rejected (frame_of (SetMode ''turbo'' 5))" by (simp add: validateMode_def)
  have b: "rejected Malformed" by simp
  show ?thesis
    using a b
      bad_frame_ignored[of "frame_of (SetMode ''turbo'' 5)" default_config 1100
        "startup default_config 1000"]
      bad_frame_ignored[of Malformed default_config 1100 "startup default_config 1000"]
    by blast
qed

text \<open>
  C5 as the specification states it fails: a frame that is valid JSON but not an object,
  such as \<open>42\<close> or \<open>null\<close>, has no known type either, and the handler returns on it
  without a warning. After start-up and such a frame the console is still empty.
\<close>

theorem non_object_frame_silent_counterexample:
  "console (run default_config (startup default_config 1000) [Message 1100 NonObject]) = []
   \<and> run default_config (startup default_config 1000) [Message 1100 NonObject]
     = startup default_config 1000"
  by (simp add: run_def on_message_def startup_def scheduleNodeRedPush_store initial_server_def)

section \<open>The heartbeat\<close>

lemma heartbeat_loop_eq:
  "heartbeat_loop cs =
     (map (\<lambda>c. c\<lparr>isAlive := False\<rparr>) (filter isAlive cs),
      map conn_id (filter (\<lambda>c. \<not> isAlive c) cs),
      map conn_id (filter isAlive cs))"
  by (induction cs) (simp_all add: Let_def)

lemma heartbeat_fields:
  "clients (heartbeat s) = map (\<lambda>c. c\<lparr>isAlive := False\<rparr>) (filter isAlive (clients s))"
  "terminated (heartbeat s) = terminated s @ map conn_id (filter (\<lambda>c. \<not> isAlive c) (clients s))"
  "pings (heartbeat s) = pings s @ map conn_id (filter isAlive (clients s))"
  by (simp_all add: heartbeat_def heartbeat_loop_eq)

lemma mark_alive_ids:
  "map conn_id (map (\<lambda>c. if conn_id c = w then c\<lparr>isAlive := True\<rparr> else c) cs) = map conn_id cs"
  by (induction cs) simp_all

lemma mark_alive_none_dead:
  "filter (\<lambda>c. conn_id c = w \<and> \<not> isAlive c)
     (map (\<lambda>c. if conn_id c = w then c\<lparr>isAlive := True\<rparr> else c) cs) = []"
  by (induction cs) simp_all

lemma mark_alive_other:
  "w \<noteq> ws \<Longrightarrow>
   filter (\<lambda>c. conn_id c = ws) (map (\<lambda>c. if conn_id c = w then c\<lparr>isAlive := True\<rparr> else c) cs)
   = filter (\<lambda>c. conn_id c = ws) cs"
  by (induction cs) simp_all

lemma drop_other:
  "w \<noteq> ws \<Longrightarrow>
   filter (\<lambda>c. conn_id c = ws) (filter (\<lambda>c. conn_id c \<noteq> w) cs) = filter (\<lambda>c. conn_id c = ws) cs"
  by (induction cs) auto

lemma on_pong_fields:
  "map conn_id (clients (on_pong ws s)) = map conn_id (clients s)"
  "filter (\<lambda>c. conn_id c = ws \<and> \<not> isAlive c) (clients (on_pong ws s)) = []"
  using mark_alive_ids[of ws "clients s"] mark_alive_none_dead[of ws "clients s"]
  by (simp_all add: on_pong_def)

lemma step_other_clients:
  "clients (on_message cfg now f s) = clients s"
  "clients (fire_timer cfg now h s) = clients s"
  "clients (postToNodeRed_settled cfg now r s) = clients s"
  "terminated (on_message cfg now f s) = terminated s"
  "terminated (fire_timer cfg now h s) = terminated s"
  "terminated (postToNodeRed_settled cfg now r s) = terminated s"
  by (simp_all add: on_message_def fire_timer_def postToNodeRed_settled_def updateState_def
      scheduleNodeRedPush_def dispatch_def postToNodeRed_def broadcast_def log_def
      setTimeout_def clearTimeout_def Let_def
      split: frame.splits option.splits timer_kind.splits outcome.splits prod.splits)

lemma silent_step_entries:
  assumes "silent ws e"
  shows "filter (\<lambda>c. conn_id c = ws) (clients (step cfg s e))
         = filter (\<lambda>c. conn_id c = ws) (clients s)"
proof (cases e)
  case (Connection w)
  then have "w \<noteq> ws" using assms by simp
  then show ?thesis using Connection mark_alive_other[of w ws "clients s"]
    by (simp add: on_connection_def)
next
  case (Pong w)
  then have "w \<noteq> ws" using assms by simp
  then show ?thesis using Pong mark_alive_other[of w ws "clients s"]
    by (simp add: on_pong_def)
next
  case (Close w)
  then have "w \<noteq> ws" using assms by simp
  then show ?thesis using Close drop_other[of w ws "clients s"]
    by (simp add: on_close_def)
next
  case Heartbeat
  then show ?thesis using assms by simp
qed (simp_all add: step_other_clients)

lemma step_terminated_mono: "set (terminated s) \<subseteq> set (terminated (step cfg s e))"
  by (cases e) (auto simp: step_other_clients on_connection_def on_pong_def on_close_def
      heartbeat_fields)

lemma silent_run_entries:
  "list_all (silent ws) evs \<Longrightarrow>
   filter (\<lambda>c. conn_id c = ws) (clients (run cfg s evs)) = filter (\<lambda>c. conn_id c = ws) (clients s)"
  unfolding run_def
  by (induction evs arbitrary: s) (simp_all add: silent_step_entries)

lemma run_terminated_mono: "set (terminated s) \<subseteq> set (terminated (run cfg s evs))"
  unfolding run_def
proof (induction evs arbitrary: s)
  case Nil
  show ?case by simp
next
  case (Cons e evs)
  show ?case using step_terminated_mono[of s cfg e] Cons[of "step cfg s e"] by auto
qed

lemma silent_connection_evicted:
  assumes "ws \<in> conn_id ` set (clients s)" and "list_all (silent ws) evs"
  shows "ws \<notin> conn_id ` set (clients (heartbeat (run cfg (heartbeat s) evs)))"
    and "ws \<in> set (terminated (heartbeat (run cfg (heartbeat s) evs)))"
proof -
  let ?s1 = "heartbeat s" and ?s2 = "run cfg (heartbeat s) evs"
  let ?mine = "\<lambda>c. conn_id c = ws"
  have e1: "filter ?mine (clients ?s1)
            = map (\<lambda>c. c\<lparr>isAlive := False\<rparr>) (filter ?mine (filter isAlive (clients s)))"
    by (simp add: heartbeat_fields filter_map comp_def)
  have e2: "filter ?mine (clients ?s2) = filter ?mine (clients ?s1)"
    by (rule silent_run_entries[OF assms(2)])
  have dead: "\<forall>c \<in> set (filter ?mine (clients ?s2)). \<not> isAlive c"
    unfolding e2 e1 by auto
  have "\<forall>c \<in> set (clients ?s2). conn_id c = ws \<longrightarrow> \<not> isAlive c"
    using dead by auto
  then show "ws \<notin> conn_id ` set (clients (heartbeat ?s2))"
    by (auto simp: heartbeat_fields)
  show "ws \<in> set (terminated (heartbeat ?s2))"
  proof (cases "\<exists>c \<in> set (clients s). conn_id c = ws \<and> isAlive c")
    case True
    then have "filter ?mine (clients ?s1) \<noteq> []"
      unfolding e1 by (auto simp: filter_empty_conv)
    then obtain c where c: "c \<in> set (filter ?mine (clients ?s2))"
      unfolding e2[symmetric] by (cases "filter ?mine (clients ?s2)") auto
    then have "c \<in> set (clients ?s2)" "conn_id c = ws" "\<not> isAlive c" using dead by auto
    then have "ws \<in> conn_id ` set (filter (\<lambda>c. \<not> isAlive c) (clients ?s2))" by force
    then show ?thesis by (simp add: heartbeat_fields)
  next
    case False
    then obtain c where "c \<in> set (clients s)" "conn_id c = ws" "\<not> isAlive c"
      using assms(1) by auto
    then have "ws \<in> conn_id ` set (filter (\<lambda>c. \<not> isAlive c) (clients s))" by force
    then have "ws \<in> set (terminated ?s1)" by (simp add: heartbeat_fields)
    then have "ws \<in> set (terminated ?s2)" using run_terminated_mono[of ?s1 cfg evs] by auto
    then show ?thesis by (simp add: heartbeat_fields)
  qed
qed

text \<open>
  C9. A heartbeat tick removes from the registry exactly the connections whose flag is
  false and terminates them; the others stay, with the flag set to false, and are
  pinged. A pong changes flags only: afterwards no entry of that connection has the flag
  false. So a registered connection that does not answer (no pong from it, no
  reconnection, no close, between one tick and the next) is, after the second tick, out
  of the registry and terminated.
\<close>

theorem heartbeat_evicts_silent_connection:
  "clients (heartbeat s) = map (\<lambda>c. c\<lparr>isAlive := False\<rparr>) (filter isAlive (clients s))
   \<and> terminated (heartbeat s) = terminated s @ map conn_id (filter (\<lambda>c. \<not> isAlive c) (clients s))
   \<and> pings (heartbeat s) = pings s @ map conn_id (filter isAlive (clients s))
   \<and> map conn_id (clients (on_pong ws s)) = map conn_id (clients s)
   \<and> filter (\<lambda>c. conn_id c = ws \<and> \<not> isAlive c) (clients (on_pong ws s)) = []
   \<and> (ws \<in> conn_id ` set (clients s) \<and> list_all (silent ws) evs \<longrightarrow>
        ws \<notin> conn_id ` set (clients (heartbeat (run cfg (heartbeat s) evs)))
        \<and> ws \<in> set (terminated (heartbeat (run cfg (heartbeat s) evs))))"
  using heartbeat_fields[of s] on_pong_fields[of ws s] silent_connection_evicted[of ws s evs cfg]
  by blast

theorem heartbeat_evicts_silent_connection_witness:
  "7 \<in> conn_id ` set (clients (on_connection 7 (initial_server 1000)))
   \<and> list_all (silent 7) [Connection 8, Pong 8]
   \<and> 7 \<notin> conn_id ` set (clients (heartbeat (run default_config
            (heartbeat (on_connection 7 (initial_server 1000))) [Connection 8, Pong 8])))
   \<and> 7 \<in> set (terminated (heartbeat (run default_config
            (heartbeat (on_connection 7 (initial_server 1000))) [Connection 8, Pong 8])))"
proof -
  have a: "7 \<in> conn_id ` set (clients (on_connection 7 (initial_server 1000)))"
    by (simp add: on_connection_def initial_server_def)
  have b: "list_all (silent 7) [Connection 8, Pong 8]" by simp
  show ?thesis
    using a b heartbeat_evicts_silent_connection
      [of "on_connection 7 (initial_server 1000)" 7 "[Connection 8, Pong 8]" default_config]
    by blast
qed

section \<open>Server messages during a drag\<close>

lemma setThumbPosition_fields:
  "stick (setThumbPosition a b c) = stick c"
  "isDragging (setThumbPosition a b c) = isDragging c"
  "mode (setThumbPosition a b c) = mode c"
  by (simp_all add: setThumbPosition_def)

lemma applyStickData_fromServer_dragging:
  assumes "isDragging c"
  shows "stick (applyStickData p True c) = clientStick p"
    and "thumb (applyStickData p True c) = thumb c"
    and "isDragging (applyStickData p True c)"
    and "mode (applyStickData p True c) = mode c"
  using assms by (simp_all add: applyStickData_def Let_def)

lemma setMode_fromServer_dragging:
  assumes "isDragging c"
  shows "stick (setMode now v True c) = stick c"
    and "thumb (setMode now v True c) = thumb c"
    and "isDragging (setMode now v True c)"
  using assms by (simp_all add: setMode_def Let_def)

text \<open>
  What a \<open>stick\<close> or \<open>state\<close> message from the server does while a drag is in progress:
  the stick fields are overwritten with the normalized values of the message; the
  position of the thumb and the drag itself are left alone.
\<close>

lemma server_message_during_drag:
  assumes "isDragging c"
    and "is_string (smsg_type m) ''stick'' \<or> is_string (smsg_type m) ''state''"
    and "smsg_stick m = Some p"
  shows "stick (on_server_message now (SObject m) c) = clientStick p
         \<and> thumb (on_server_message now (SObject m) c) = thumb c
         \<and> isDragging (on_server_message now (SObject m) c)"
proof (cases "is_string (smsg_type m) ''state''")
  case True
  show ?thesis
  proof (cases "truthy (smsg_mode m)")
    case yes: True
    have d: "isDragging (setMode now (smsg_mode m) True c)"
      and t: "thumb (setMode now (smsg_mode m) True c) = thumb c"
      using setMode_fromServer_dragging[OF assms(1)] by simp_all
    have "on_server_message now (SObject m) c
          = applyStickData p True (setMode now (smsg_mode m) True c)"
      using True yes assms(3) by (simp add: on_server_message_def Let_def)
    then show ?thesis using applyStickData_fromServer_dragging[OF d, of p] t by simp
  next
    case no: False
    have "on_server_message now (SObject m) c = applyStickData p True c"
      using True no assms(3) by (simp add: on_server_message_def Let_def)
    then show ?thesis using applyStickData_fromServer_dragging[OF assms(1), of p] by simp
  qed
next
  case False
  then have s: "is_string (smsg_type m) ''stick''" using assms(2) by simp
  then have "\<not> is_string (smsg_type m) ''mode''" by (cases "smsg_type m") auto
  then have "on_server_message now (SObject m) c = applyStickData p True c"
    using False s assms(3) by (simp add: on_server_message_def)
  then show ?thesis using applyStickData_fromServer_dragging[OF assms(1), of p] by simp
qed

lemma clientStick_zero: "clientStick zero_payload = initialStickState"
proof -
  have r: "js_rem 360 360 = 0" by (simp add: js_rem_def trunc_def)
  show ?thesis
    by (simp add: clientStick_def zero_payload_def initialStickState_def Let_def
        normalizeDegrees_def js_rem_small r)
qed

lemma queueStickSend_fields:
  "stick (queueStickSend now c) = stick c"
  "thumb (queueStickSend now c) = thumb c"
  "isDragging (queueStickSend now c) = isDragging c"
  "mode (queueStickSend now c) = mode c"
  by (simp_all add: queueStickSend_def sendStickPayload_def sendMessage_def
      window_setTimeout_def Let_def)

lemma on_modeSwitch_change_manual: "mode (on_modeSwitch_change now True c) = ''manual''"
  by (simp add: on_modeSwitch_change_def setMode_def sendMessage_def Let_def)

lemma applyStickData_local:
  "stick (applyStickData p False c) = clientStick p"
  "thumb (applyStickData p False c)
   = (real_of (clamp (Fin (stick_x (clientStick p))) (- 1) 1),
      real_of (clamp (Fin (- stick_y (clientStick p))) (- 1) 1))"
  "isDragging (applyStickData p False c) = isDragging c"
  "mode (applyStickData p False c) = mode c"
  by (simp_all add: applyStickData_def setThumbPosition_def Let_def)

lemma right_edge_degrees: "calculateJoystickDegrees 1 0 = 90" "normalizeDegrees 90 = 90"
proof -
  have a: "Math_atan2 0 1 = 0" by (simp add: Math_atan2_def)
  have e: "\<not> 1 < Number_EPSILON" by (simp add: Number_EPSILON_def)
  have f: "\<lfloor>450 / 360 :: real\<rfloor> = 1" by (simp add: floor_eq_iff)
  have r: "js_rem 450 360 = 90" by (simp add: js_rem_def trunc_def f)
  show n: "normalizeDegrees 90 = 90" by (simp add: normalizeDegrees_def js_rem_small r)
  show "calculateJoystickDegrees 1 0 = 90"
    by (simp add: calculateJoystickDegrees_def e a n)
qed

lemma right_edge_stick:
  "clientStick \<lparr>px = JNum (Fin 1), py = JNum (Fin 0), pmag = JNum (Fin 1), pdeg = JNum (Fin 90)\<rparr>
   = \<lparr>stick_x = 1, stick_y = 0, stick_mag = 1, stick_deg = 90\<rparr>"
  by (simp add: clientStick_def Let_def right_edge_degrees)

lemma handlePointerEvent_right_edge:
  assumes "mode c = ''manual''"
  shows "handlePointerEvent now 1 0 c
         = queueStickSend now
             (applyStickData \<lparr>px = JNum (Fin 1), py = JNum (Fin 0), pmag = JNum (Fin 1),
                              pdeg = JNum (Fin 90)\<rparr> False c)"
proof -
  have h: "Math_hypot 1 0 = 1" by (simp add: Math_hypot_def)
  show ?thesis using assms
    by (simp add: handlePointerEvent_def Let_def h right_edge_degrees)
qed

lemma on_pointerdown_right_edge:
  assumes "mode c = ''manual''"
  shows "stick (on_pointerdown now pointerId 1 0 c)
         = \<lparr>stick_x = 1, stick_y = 0, stick_mag = 1, stick_deg = 90\<rparr>"
    and "thumb (on_pointerdown now pointerId 1 0 c) = (1, 0)"
    and "isDragging (on_pointerdown now pointerId 1 0 c)"
proof -
  let ?c = "c\<lparr>isDragging := True, activePointerId := Some pointerId\<rparr>"
  have m: "mode ?c = ''manual''" using assms by simp
  have e: "on_pointerdown now pointerId 1 0 c
           = queueStickSend now
               (applyStickData \<lparr>px = JNum (Fin 1), py = JNum (Fin 0), pmag = JNum (Fin 1),
                                pdeg = JNum (Fin 90)\<rparr> False ?c)"
    using assms handlePointerEvent_right_edge[OF m] by (simp add: on_pointerdown_def)
  show "stick (on_pointerdown now pointerId 1 0 c)
         = \<lparr>stick_x = 1, stick_y = 0, stick_mag = 1, stick_deg = 90\<rparr>"
    unfolding e by (simp add: queueStickSend_fields applyStickData_local right_edge_stick)
  show "thumb (on_pointerdown now pointerId 1 0 c) = (1, 0)"
    unfolding e by (simp add: queueStickSend_fields applyStickData_local right_edge_stick)
  show "isDragging (on_pointerdown now pointerId 1 0 c)"
    unfolding e by (simp add: queueStickSend_fields applyStickData_local)
qed

section \<open>Reconnection with backoff\<close>

text \<open>The reconnection timers that are pending.\<close>

definition pending_reconnects :: "client \<Rightarrow> ctimer list" where
  "pending_reconnects c = filter (\<lambda>t. ctimer_kind t = ReconnectTimer) (ctimers c)"

text \<open>
  \<open>n\<close> reconnection attempts in a row that fail: the socket closes at \<open>now\<close>, the
  reconnection timer armed by that fires when its delay has elapsed and opens a new
  socket, which closes at once, and so on. The result lists the delays of the timers
  armed on the way (the list ends early if a close leaves no single pending timer).
\<close>

fun failed_attempts :: "nat \<Rightarrow> real \<Rightarrow> client \<Rightarrow> real list" where
  "failed_attempts 0 now c = []"
| "failed_attempts (Suc n) now c =
     (case pending_reconnects (on_socket_close now c) of
        [t] \<Rightarrow> ctimer_delay t #
                 failed_attempts n (now + ctimer_delay t)
                   (fire_ctimer (now + ctimer_delay t) False (ctimer_id t) (on_socket_close now c))
      | _ \<Rightarrow> [])"

text \<open>
  Handles are fresh, every pending reconnection timer is the one \<open>reconnectTimer\<close> holds,
  and there is at most one.
\<close>

definition reconnect_inv :: "client \<Rightarrow> bool" where
  "reconnect_inv c =
     ((\<forall>t \<in> set (ctimers c). ctimer_id t < next_ctimer c)
      \<and> (\<forall>t \<in> set (pending_reconnects c). reconnectTimer c = Some (ctimer_id t))
      \<and> length (pending_reconnects c) \<le> 1)"

lemma reconnect_inv_cong:
  assumes "ctimers c' = ctimers c" "next_ctimer c' = next_ctimer c" "reconnectTimer c' = reconnectTimer c"
  shows "reconnect_inv c' = reconnect_inv c"
  using assms by (simp add: reconnect_inv_def pending_reconnects_def)

lemma sendMessage_timers:
  "ctimers (sendMessage m c) = ctimers c"
  "next_ctimer (sendMessage m c) = next_ctimer c"
  "reconnectTimer (sendMessage m c) = reconnectTimer c"
  "reconnectDelay (sendMessage m c) = reconnectDelay c"
  by (simp_all add: sendMessage_def)

lemma applyStickData_timers:
  "ctimers (applyStickData p fs c) = ctimers c"
  "next_ctimer (applyStickData p fs c) = next_ctimer c"
  "reconnectTimer (applyStickData p fs c) = reconnectTimer c"
  "reconnectDelay (applyStickData p fs c) = reconnectDelay c"
  by (simp_all add: applyStickData_def setThumbPosition_def Let_def)

lemma setMode_timers:
  "ctimers (setMode now v fs c) = ctimers c"
  "next_ctimer (setMode now v fs c) = next_ctimer c"
  "reconnectTimer (setMode now v fs c) = reconnectTimer c"
  "reconnectDelay (setMode now v fs c) = reconnectDelay c"
  by (simp_all add: setMode_def Let_def sendMessage_timers applyStickData_timers)

lemma sendStickPayload_timers:
  "ctimers (sendStickPayload now c) = ctimers c"
  "next_ctimer (sendStickPayload now c) = next_ctimer c"
  "reconnectTimer (sendStickPayload now c) = reconnectTimer c"
  "reconnectDelay (sendStickPayload now c) = reconnectDelay c"
  by (simp_all add: sendStickPayload_def sendMessage_timers)

lemma reconnect_inv_stick_timer:
  assumes "reconnect_inv c"
  shows "reconnect_inv (snd (window_setTimeout StickTimer now d c)\<lparr>pendingStickTimeout := h\<rparr>)"
  using assms
  by (auto simp: reconnect_inv_def pending_reconnects_def window_setTimeout_def less_Suc_eq)

lemma queueStickSend_reconnect:
  "reconnectTimer (queueStickSend now c) = reconnectTimer c"
  "reconnectDelay (queueStickSend now c) = reconnectDelay c"
  "pending_reconnects (queueStickSend now c) = pending_reconnects c"
  by (simp_all add: queueStickSend_def sendStickPayload_timers window_setTimeout_def Let_def
      pending_reconnects_def)

lemma queueStickSend_inv: "reconnect_inv c \<Longrightarrow> reconnect_inv (queueStickSend now c)"
proof -
  assume i: "reconnect_inv c"
  have s: "reconnect_inv (sendStickPayload now c)"
    using i by (simp add: reconnect_inv_cong[OF sendStickPayload_timers(1,2,3)])
  define c1 where "c1 = snd (window_setTimeout StickTimer now (UI_THROTTLE_MS - (now - lastStickSend c)) c)"
  have w: "window_setTimeout StickTimer now (UI_THROTTLE_MS - (now - lastStickSend c)) c
           = (next_ctimer c, c1)"
    by (simp add: window_setTimeout_def c1_def)
  have "reconnect_inv (c1\<lparr>pendingStickTimeout := Some (next_ctimer c)\<rparr>)"
    unfolding c1_def by (rule reconnect_inv_stick_timer[OF i])
  then show ?thesis
    using i s by (simp add: queueStickSend_def Let_def w)
qed

lemma resetStick_reconnect:
  "reconnectTimer (resetStick now c) = reconnectTimer c"
  "reconnectDelay (resetStick now c) = reconnectDelay c"
  "pending_reconnects (resetStick now c) = pending_reconnects c"
  by (simp_all add: resetStick_def queueStickSend_reconnect applyStickData_timers
      pending_reconnects_def[of "applyStickData _ _ _"] pending_reconnects_def[of c])

lemma resetStick_inv: "reconnect_inv c \<Longrightarrow> reconnect_inv (resetStick now c)"
  unfolding resetStick_def
  by (rule queueStickSend_inv) (simp add: reconnect_inv_cong[OF applyStickData_timers(1,2,3)])

lemma scheduleReconnect_pending:
  assumes "reconnect_inv c"
  shows "pending_reconnects (scheduleReconnect now c)
         = [\<lparr>ctimer_id = next_ctimer c, ctimer_kind = ReconnectTimer, ctimer_armed = now,
             ctimer_delay = reconnectDelay c\<rparr>]"
    and "reconnectTimer (scheduleReconnect now c) = Some (next_ctimer c)"
    and "reconnectDelay (scheduleReconnect now c) = reconnectDelay c"
    and "reconnect_inv (scheduleReconnect now c)"
proof -
  have gone: "filter (\<lambda>t. ctimer_kind t = ReconnectTimer)
                (ctimers (window_clearTimeout (reconnectTimer c) c)) = []"
    using assms
    by (auto simp: reconnect_inv_def pending_reconnects_def window_clearTimeout_def
        filter_empty_conv split: option.splits)
  have keep: "next_ctimer (window_clearTimeout (reconnectTimer c) c) = next_ctimer c"
    "reconnectDelay (window_clearTimeout (reconnectTimer c) c) = reconnectDelay c"
    "set (ctimers (window_clearTimeout (reconnectTimer c) c)) \<subseteq> set (ctimers c)"
    by (auto simp: window_clearTimeout_def split: option.splits)
  show "pending_reconnects (scheduleReconnect now c)
         = [\<lparr>ctimer_id = next_ctimer c, ctimer_kind = ReconnectTimer, ctimer_armed = now,
             ctimer_delay = reconnectDelay c\<rparr>]"
    using gone keep(1,2)
    by (simp add: scheduleReconnect_def window_setTimeout_def Let_def pending_reconnects_def)
  show "reconnectTimer (scheduleReconnect now c) = Some (next_ctimer c)"
    using keep(1) by (simp add: scheduleReconnect_def window_setTimeout_def Let_def)
  show "reconnectDelay (scheduleReconnect now c) = reconnectDelay c"
    using keep(2) by (simp add: scheduleReconnect_def window_setTimeout_def Let_def)
  have "\<forall>t \<in> set (ctimers (window_clearTimeout (reconnectTimer c) c)). ctimer_id t < next_ctimer c"
    using assms keep(3) by (auto simp: reconnect_inv_def)
  then show "reconnect_inv (scheduleReconnect now c)"
    using gone keep(1)
    by (auto simp: scheduleReconnect_def window_setTimeout_def Let_def reconnect_inv_def
        pending_reconnects_def less_Suc_eq)
qed

lemma length_filter_filter_le: "length (filter P (filter Q xs)) \<le> length (filter P xs)"
  by (induction xs) (simp_all add: le_SucI)

lemma window_clearTimeout_inv: "reconnect_inv c \<Longrightarrow> reconnect_inv (window_clearTimeout h c)"
proof (cases h)
  case None
  assume "reconnect_inv c"
  then show ?thesis using None by (simp add: window_clearTimeout_def)
next
  case (Some k)
  assume i: "reconnect_inv c"
  have l: "length (filter (\<lambda>t. ctimer_kind t = ReconnectTimer)
                    (filter (\<lambda>t. ctimer_id t \<noteq> k) (ctimers c)))
           \<le> length (filter (\<lambda>t. ctimer_kind t = ReconnectTimer) (ctimers c))"
    by (rule length_filter_filter_le)
  have "length (pending_reconnects (window_clearTimeout h c)) \<le> 1"
    using i l Some
    by (simp add: reconnect_inv_def pending_reconnects_def window_clearTimeout_def
        del: filter_filter)
  then show ?thesis using i Some
    by (auto simp: reconnect_inv_def pending_reconnects_def window_clearTimeout_def)
qed

lemma connectSocket_inv: "reconnect_inv c \<Longrightarrow> reconnect_inv (connectSocket now throws c)"
proof -
  assume i: "reconnect_inv c"
  let ?c1 = "window_clearTimeout (reconnectTimer c) c"
  have 1: "reconnect_inv ?c1" by (rule window_clearTimeout_inv[OF i])
  have 2: "reconnect_inv (?c1\<lparr>cconsole := cconsole ?c1 @ [Error ''[WS] Connection failed'']\<rparr>)"
    using 1 by (simp add: reconnect_inv_def pending_reconnects_def)
  have 3: "reconnect_inv (?c1\<lparr>socket_OPEN := False\<rparr>)"
    using 1 by (simp add: reconnect_inv_def pending_reconnects_def)
  show ?thesis using 3 scheduleReconnect_pending(4)[OF 2]
    by (simp add: connectSocket_def Let_def)
qed

lemma on_open_inv: "reconnect_inv c \<Longrightarrow> reconnect_inv (on_open now c)"
proof -
  assume i: "reconnect_inv c"
  let ?c1 = "c\<lparr>socket_OPEN := True, reconnectDelay := 1000\<rparr>"
  have 1: "reconnect_inv ?c1" using i by (simp add: reconnect_inv_def pending_reconnects_def)
  have "reconnect_inv (if mode ?c1 = ''manual'' then queueStickSend now ?c1 else resetStick now ?c1)"
    using queueStickSend_inv[OF 1] resetStick_inv[OF 1] by simp
  then show ?thesis
    by (simp add: on_open_def Let_def reconnect_inv_cong[OF sendMessage_timers(1,2,3)])
qed

lemma on_open_delay: "reconnectDelay (on_open now c) = 1000"
  by (simp add: on_open_def Let_def sendMessage_timers queueStickSend_reconnect resetStick_reconnect)

lemma on_socket_close_inv: "reconnect_inv c \<Longrightarrow> reconnect_inv (on_socket_close now c)"
proof -
  assume i: "reconnect_inv c"
  have 1: "reconnect_inv (c\<lparr>socket_OPEN := False\<rparr>)"
    using i by (simp add: reconnect_inv_def pending_reconnects_def)
  show ?thesis unfolding on_socket_close_def by (rule scheduleReconnect_pending(4)[OF 1])
qed

lemma fire_ctimer_inv: "reconnect_inv c \<Longrightarrow> reconnect_inv (fire_ctimer now throws h c)"
proof -
  assume i: "reconnect_inv c"
  let ?c1 = "c\<lparr>ctimers := filter (\<lambda>t. ctimer_id t \<noteq> h) (ctimers c)\<rparr>"
  have "?c1 = window_clearTimeout (Some h) c" by (simp add: window_clearTimeout_def)
  then have 1: "reconnect_inv ?c1" using window_clearTimeout_inv[OF i, of "Some h"] by simp
  have 2: "reconnect_inv (?c1\<lparr>pendingStickTimeout := None\<rparr>)"
    using 1 by (simp add: reconnect_inv_def pending_reconnects_def)
  have 3: "reconnect_inv (?c1\<lparr>reconnectDelay := d\<rparr>)" for d
    using 1 by (simp add: reconnect_inv_def pending_reconnects_def)
  have s: "reconnect_inv (sendStickPayload now (?c1\<lparr>pendingStickTimeout := None\<rparr>))"
    using 2 by (simp add: reconnect_inv_cong[OF sendStickPayload_timers(1,2,3)])
  show ?thesis using i s connectSocket_inv[OF 3]
    by (simp add: fire_ctimer_def Let_def split: option.splits ctimer_kind.splits)
qed

lemma setMode_inv: "reconnect_inv c \<Longrightarrow> reconnect_inv (setMode now v fs c)"
  by (simp add: reconnect_inv_cong[OF setMode_timers(1,2,3)])

lemma applyStickData_inv: "reconnect_inv c \<Longrightarrow> reconnect_inv (applyStickData p fs c)"
  by (simp add: reconnect_inv_cong[OF applyStickData_timers(1,2,3)])

lemma on_server_message_inv: "reconnect_inv c \<Longrightarrow> reconnect_inv (on_server_message now f c)"
proof (cases f)
  case SBad
  assume "reconnect_inv c"
  then show ?thesis using SBad
    by (simp add: on_server_message_def reconnect_inv_def pending_reconnects_def)
next
  case (SObject m)
  assume i: "reconnect_inv c"
  have w: "reconnect_inv (c\<lparr>cconsole := cconsole c @ [Warn ''[WS] Unhandled message type'']\<rparr>)"
    using i by (simp add: reconnect_inv_def pending_reconnects_def)
  show ?thesis using SObject i w
    by (simp add: on_server_message_def Let_def setMode_inv applyStickData_inv split: option.splits)
qed

lemma handlePointerEvent_inv: "reconnect_inv c \<Longrightarrow> reconnect_inv (handlePointerEvent now a b c)"
  by (simp add: handlePointerEvent_def Let_def queueStickSend_inv applyStickData_inv)

lemma cstep_inv: "reconnect_inv c \<Longrightarrow> reconnect_inv (cstep c e)"
proof (cases e)
  case (PointerDown now pointerId a b)
  assume i: "reconnect_inv c"
  have "reconnect_inv (c\<lparr>isDragging := True, activePointerId := Some pointerId\<rparr>)"
    using i by (simp add: reconnect_inv_def pending_reconnects_def)
  then show ?thesis using i PointerDown
    by (simp add: on_pointerdown_def handlePointerEvent_inv)
next
  case (PointerEnd now pointerId)
  assume i: "reconnect_inv c"
  have "reconnect_inv (c\<lparr>isDragging := False, activePointerId := None\<rparr>)"
    using i by (simp add: reconnect_inv_def pending_reconnects_def)
  then show ?thesis using i PointerEnd by (simp add: endPointer_def resetStick_inv)
next
  case (LostPointerCapture now)
  assume i: "reconnect_inv c"
  have "reconnect_inv (c\<lparr>isDragging := False, activePointerId := None\<rparr>)"
    using i by (simp add: reconnect_inv_def pending_reconnects_def)
  then show ?thesis using i LostPointerCapture
    by (simp add: on_lostpointercapture_def resetStick_inv)
next
  case (ModeSwitch now checked)
  assume i: "reconnect_inv c"
  show ?thesis using ModeSwitch setMode_inv[OF i] 
    by (simp add: on_modeSwitch_change_def Let_def resetStick_inv)
qed (simp_all add: on_open_inv on_socket_close_inv on_server_message_inv fire_ctimer_inv
      on_pointermove_def handlePointerEvent_inv)

lemma page_load_inv: "reconnect_inv (page_load now throws)"
proof -
  have "reconnect_inv initial_client"
    by (simp add: reconnect_inv_def pending_reconnects_def initial_client_def)
  then show ?thesis unfolding page_load_def by (intro connectSocket_inv setMode_inv)
qed

lemma crun_inv: "reconnect_inv c \<Longrightarrow> reconnect_inv (crun c evs)"
  unfolding crun_def by (induction evs arbitrary: c) (simp_all add: cstep_inv)

lemma find_fresh:
  "\<forall>t \<in> set ts. ctimer_id t < h \<Longrightarrow> ctimer_id t' = h
   \<Longrightarrow> find (\<lambda>t. ctimer_id t = h) (ts @ [t']) = Some t'"
  by (induction ts) auto

lemma scheduleReconnect_ctimers:
  "ctimers (scheduleReconnect now c)
   = ctimers (window_clearTimeout (reconnectTimer c) c)
     @ [\<lparr>ctimer_id = next_ctimer c, ctimer_kind = ReconnectTimer, ctimer_armed = now,
          ctimer_delay = reconnectDelay c\<rparr>]"
proof -
  have "next_ctimer (window_clearTimeout (reconnectTimer c) c) = next_ctimer c"
    "reconnectDelay (window_clearTimeout (reconnectTimer c) c) = reconnectDelay c"
    by (simp_all add: window_clearTimeout_def split: option.splits)
  then show ?thesis by (simp add: scheduleReconnect_def window_setTimeout_def Let_def)
qed

lemma connectSocket_delay: "reconnectDelay (connectSocket now False c) = reconnectDelay c"
  by (simp add: connectSocket_def Let_def window_clearTimeout_def split: option.splits)

lemma fire_due_reconnect:
  assumes "reconnect_inv c"
  shows "reconnectDelay (fire_ctimer (now + reconnectDelay c) False (next_ctimer c)
                           (scheduleReconnect now c))
         = min (reconnectDelay c * 1.5) MAX_RECONNECT_DELAY"
proof -
  let ?new = "\<lparr>ctimer_id = next_ctimer c, ctimer_kind = ReconnectTimer, ctimer_armed = now,
               ctimer_delay = reconnectDelay c\<rparr>"
  let ?old = "ctimers (window_clearTimeout (reconnectTimer c) c)"
  have "set ?old \<subseteq> set (ctimers c)"
    by (auto simp: window_clearTimeout_def split: option.splits)
  then have "\<forall>t \<in> set ?old. ctimer_id t < next_ctimer c"
    using assms by (auto simp: reconnect_inv_def)
  then have f: "find (\<lambda>t. ctimer_id t = next_ctimer c) (ctimers (scheduleReconnect now c)) = Some ?new"
    unfolding scheduleReconnect_ctimers by (rule find_fresh) simp
  show ?thesis
    by (simp add: fire_ctimer_def f Let_def connectSocket_delay scheduleReconnect_pending(3)[OF assms])
qed

lemma failed_attempts_Suc:
  assumes "reconnect_inv c"
  shows "failed_attempts (Suc n) now c
         = reconnectDelay c #
           failed_attempts n (now + reconnectDelay c)
             (fire_ctimer (now + reconnectDelay c) False (next_ctimer c) (on_socket_close now c))"
    and "reconnect_inv (fire_ctimer (now + reconnectDelay c) False (next_ctimer c)
                          (on_socket_close now c))"
    and "reconnectDelay (fire_ctimer (now + reconnectDelay c) False (next_ctimer c)
                           (on_socket_close now c))
         = min (reconnectDelay c * 1.5) MAX_RECONNECT_DELAY"
proof -
  let ?c0 = "c\<lparr>socket_OPEN := False\<rparr>"
  have i: "reconnect_inv ?c0" using assms by (simp add: reconnect_inv_def pending_reconnects_def)
  have p: "pending_reconnects (on_socket_close now c)
           = [\<lparr>ctimer_id = next_ctimer c, ctimer_kind = ReconnectTimer, ctimer_armed = now,
               ctimer_delay = reconnectDelay c\<rparr>]"
    using scheduleReconnect_pending(1)[OF i, of now] by (simp add: on_socket_close_def)
  show "failed_attempts (Suc n) now c
         = reconnectDelay c #
           failed_attempts n (now + reconnectDelay c)
             (fire_ctimer (now + reconnectDelay c) False (next_ctimer c) (on_socket_close now c))"
    by (simp add: p)
  show "reconnect_inv (fire_ctimer (now + reconnectDelay c) False (next_ctimer c)
                          (on_socket_close now c))"
    by (intro fire_ctimer_inv on_socket_close_inv assms)
  show "reconnectDelay (fire_ctimer (now + reconnectDelay c) False (next_ctimer c)
                           (on_socket_close now c))
         = min (reconnectDelay c * 1.5) MAX_RECONNECT_DELAY"
    using fire_due_reconnect[OF i, of now] by (simp add: on_socket_close_def)
qed

lemma backoff_arith:
  assumes "0 < d" "0 < M"
  shows "min (min (d * 1.5) M * (3 / 2) ^ k) M = min (d * (3 / 2) ^ Suc k) (M::real)"
proof (cases "d * 1.5 \<le> M")
  case True
  then show ?thesis by (simp add: min_def mult.assoc)
next
  case False
  have p: "1 \<le> (3 / 2 :: real) ^ k" by (rule one_le_power) simp
  have "M * 1 \<le> M * (3 / 2) ^ k" using p assms(2) by (intro mult_left_mono) auto
  then have 1: "M \<le> M * (3 / 2) ^ k" by simp
  have "M * (3 / 2) ^ k \<le> (d * 1.5) * (3 / 2) ^ k" using False p by (intro mult_right_mono) auto
  moreover have "(d * 1.5) * (3 / 2) ^ k = d * (3 / 2) ^ Suc k" by simp
  ultimately have 2: "M \<le> d * (3 / 2) ^ Suc k" using 1 by linarith
  show ?thesis using False 1 2 by (simp add: min_def)
qed

lemma failed_attempts_backoff:
  assumes "reconnect_inv c" "0 < reconnectDelay c" "reconnectDelay c \<le> MAX_RECONNECT_DELAY"
  shows "failed_attempts n now c
         = map (\<lambda>k. min (reconnectDelay c * (3 / 2) ^ k) MAX_RECONNECT_DELAY) [0..<n]"
  using assms
proof (induction n arbitrary: now c)
  case 0
  show ?case by simp
next
  case (Suc n)
  let ?d = "reconnectDelay c"
  let ?c2 = "fire_ctimer (now + ?d) False (next_ctimer c) (on_socket_close now c)"
  note s = failed_attempts_Suc[OF Suc.prems(1), where now = now]
  have M: "0 < MAX_RECONNECT_DELAY" by (simp add: MAX_RECONNECT_DELAY_def)
  have d2: "0 < reconnectDelay ?c2" "reconnectDelay ?c2 \<le> MAX_RECONNECT_DELAY"
    using s(3) Suc.prems(2) M by simp_all
  have "failed_attempts n (now + ?d) ?c2
        = map (\<lambda>k. min (reconnectDelay ?c2 * (3 / 2) ^ k) MAX_RECONNECT_DELAY) [0..<n]"
    by (rule Suc.IH[OF s(2) d2])
  also have "\<dots> = map (\<lambda>k. min (?d * (3 / 2) ^ Suc k) MAX_RECONNECT_DELAY) [0..<n]"
    unfolding s(3) using backoff_arith[OF Suc.prems(2) M] by simp
  finally have r: "failed_attempts n (now + ?d) ?c2
        = map (\<lambda>k. min (?d * (3 / 2) ^ Suc k) MAX_RECONNECT_DELAY) [0..<n]" .
  have "map (\<lambda>k. min (?d * (3 / 2) ^ k) MAX_RECONNECT_DELAY) [0..<Suc n]
        = min (?d * (3 / 2) ^ 0) MAX_RECONNECT_DELAY
          # map (\<lambda>k. min (?d * (3 / 2) ^ Suc k) MAX_RECONNECT_DELAY) [0..<n]"
    by (simp only: map_upt_Suc)
  also have "\<dots> = ?d # map (\<lambda>k. min (?d * (3 / 2) ^ Suc k) MAX_RECONNECT_DELAY) [0..<n]"
    using Suc.prems(3) by simp
  finally show ?case unfolding s(1) r by simp
qed

lemma backoff_first_eight:
  "map (\<lambda>k. min (1000 * (3 / 2) ^ k) MAX_RECONNECT_DELAY) [0..<8]
   = [1000, 1500, 2250, 3375, 5062.5, 7593.75, 10000, 10000 :: real]"
  by (simp add: MAX_RECONNECT_DELAY_def upt_rec[of 0] upt_rec[of "Suc _"] eval_nat_numeral)

text \<open>
  C8. From any state the client can reach after the page is loaded, in which the
  interval is at its floor of 1000 ms, the delays of \<open>n\<close> reconnection attempts that fail
  in a row are \<open>min (1000 * 1.5 ^ k) 10000\<close> for \<open>k = 0, ..., n - 1\<close>, that is 1000, 1500,
  2250, 3375, 5062.5, 7593.75, 10000, 10000 and so on; the \<open>open\<close> listener sets the
  interval back to 1000; and in every reachable state at most one reconnection timer is
  pending.
\<close>

theorem reconnect_backoff:
  "reconnectDelay (on_open now c) = 1000
   \<and> length (pending_reconnects (crun (page_load t0 throws) evs)) \<le> 1
   \<and> (reconnectDelay (crun (page_load t0 throws) evs) = 1000 \<longrightarrow>
        failed_attempts n now (crun (page_load t0 throws) evs)
          = map (\<lambda>k. min (1000 * (3 / 2) ^ k) MAX_RECONNECT_DELAY) [0..<n]
        \<and> failed_attempts 8 now (crun (page_load t0 throws) evs)
          = [1000, 1500, 2250, 3375, 5062.5, 7593.75, 10000, 10000])"
proof -
  let ?c = "crun (page_load t0 throws) evs"
  have i: "reconnect_inv ?c" by (intro crun_inv page_load_inv)
  then have l: "length (pending_reconnects ?c) \<le> 1" by (simp add: reconnect_inv_def)
  have "failed_attempts m now ?c
        = map (\<lambda>k. min (1000 * (3 / 2) ^ k) MAX_RECONNECT_DELAY) [0..<m]"
    if "reconnectDelay ?c = 1000" for m
    using failed_attempts_backoff[OF i, of m now] that by (simp add: MAX_RECONNECT_DELAY_def)
  then show ?thesis using l on_open_delay[of now c] backoff_first_eight by simp
qed

theorem reconnect_backoff_witness:
  "reconnectDelay (crun (page_load 0 False) [SocketOpen 100]) = 1000
   \<and> failed_attempts 8 200 (crun (page_load 0 False) [SocketOpen 100])
     = [1000, 1500, 2250, 3375, 5062.5, 7593.75, 10000, 10000]"
proof -
  have d: "reconnectDelay (crun (page_load 0 False) [SocketOpen 100]) = 1000"
    by (simp add: crun_def on_open_delay)
  show ?thesis
    using d reconnect_backoff[where ?t0.0 = 0 and throws = False and evs = "[SocketOpen 100]"
        and n = 8 and now = 200 and c = initial_client]
    by blast
qed

section \<open>The throttled channels\<close>

text \<open>The clock values of the \<open>stick\<close> messages in what the client has sent.\<close>

fun stick_times :: "cmsg list \<Rightarrow> real list" where
  "stick_times [] = []"
| "stick_times (Stick st ts # ms) = ts # stick_times ms"
| "stick_times (SetMode m ts # ms) = stick_times ms"

lemma stick_times_append: "stick_times (xs @ ys) = stick_times xs @ stick_times ys"
  by (induction xs rule: stick_times.induct) simp_all

text \<open>
  What the client's throttle reads and writes: whether the socket is open, the time of
  the last send, the handle of the deferred send, the pending timers, the next handle
  and the times of the stick messages sent.
\<close>

definition throttle_view ::
  "client \<Rightarrow> bool \<times> real \<times> nat option \<times> ctimer list \<times> nat \<times> real list" where
  "throttle_view c =
     (socket_OPEN c, lastStickSend c, pendingStickTimeout c, ctimers c, next_ctimer c,
      stick_times (outbox c))"

text \<open>\<open>queueStickSend\<close> on that view.\<close>

fun queue_view ::
  "real \<Rightarrow> bool \<times> real \<times> nat option \<times> ctimer list \<times> nat \<times> real list
   \<Rightarrow> bool \<times> real \<times> nat option \<times> ctimer list \<times> nat \<times> real list" where
  "queue_view now (opn, sentAt, pending, ts, nxt, out) =
     (if now - sentAt \<ge> 33 then
        (if opn then (opn, now, None, ts, nxt, out @ [now]) else (opn, sentAt, pending, ts, nxt, out))
      else if pending \<noteq> None then (opn, sentAt, pending, ts, nxt, out)
      else (opn, sentAt, Some nxt,
            ts @ [\<lparr>ctimer_id = nxt, ctimer_kind = StickTimer, ctimer_armed = now,
                   ctimer_delay = 33 - (now - sentAt)\<rparr>],
            Suc nxt, out))"

lemma queueStickSend_view: "throttle_view (queueStickSend now c) = queue_view now (throttle_view c)"
  by (simp add: throttle_view_def queueStickSend_def sendStickPayload_def sendMessage_def
      window_setTimeout_def UI_THROTTLE_MS_def Let_def stick_times_append)

lemma queueStickSend_drag:
  "activePointerId (queueStickSend now c) = activePointerId c"
  by (simp add: queueStickSend_def sendStickPayload_def sendMessage_def window_setTimeout_def Let_def)

lemma applyStickData_view:
  "throttle_view (applyStickData p fs c) = throttle_view c"
  "activePointerId (applyStickData p fs c) = activePointerId c"
  by (simp_all add: throttle_view_def applyStickData_def setThumbPosition_def Let_def)

lemma setMode_view:
  "throttle_view (setMode now v fs c) = throttle_view c"
  "isDragging (setMode now v fs c) = isDragging c"
  "activePointerId (setMode now v fs c) = activePointerId c"
  by (simp_all add: throttle_view_def setMode_def sendMessage_def applyStickData_def
      setThumbPosition_def Let_def stick_times_append)

lemma page_load_view:
  "throttle_view (page_load now False) = (False, 0, None, [], 0, [])"
  "mode (page_load now False) = ''automatic''"
  "isDragging (page_load now False) = False"
  by (simp_all add: throttle_view_def page_load_def connectSocket_def window_clearTimeout_def
      setMode_def applyStickData_def setThumbPosition_def initial_client_def Let_def)

lemma on_open_view:
  "throttle_view (on_open now c)
   = queue_view now (True, lastStickSend c, pendingStickTimeout c, ctimers c, next_ctimer c,
                     stick_times (outbox c))"
  "isDragging (on_open now c) = isDragging c"
proof -
  let ?c1 = "c\<lparr>socket_OPEN := True, reconnectDelay := 1000\<rparr>"
  have v: "throttle_view ?c1
           = (True, lastStickSend c, pendingStickTimeout c, ctimers c, next_ctimer c,
              stick_times (outbox c))"
    by (simp add: throttle_view_def)
  have q: "throttle_view (queueStickSend now ?c1) = queue_view now (throttle_view ?c1)"
    by (rule queueStickSend_view)
  have r: "throttle_view (resetStick now ?c1) = queue_view now (throttle_view ?c1)"
    by (simp add: resetStick_def queueStickSend_view applyStickData_view)
  have m: "throttle_view (sendMessage (SetMode s now) d) = throttle_view d" for s d
    by (simp add: throttle_view_def sendMessage_def stick_times_append)
  show "throttle_view (on_open now c)
        = queue_view now (True, lastStickSend c, pendingStickTimeout c, ctimers c, next_ctimer c,
                          stick_times (outbox c))"
    using q r by (simp add: on_open_def Let_def m v)
  show "isDragging (on_open now c) = isDragging c"
    by (simp add: on_open_def Let_def sendMessage_def queueStickSend_fields resetStick_def
        applyStickData_local)
qed

lemma on_modeSwitch_change_view:
  "throttle_view (on_modeSwitch_change now True c) = throttle_view c"
  "isDragging (on_modeSwitch_change now True c) = isDragging c"
  by (simp_all add: on_modeSwitch_change_def Let_def setMode_view)

lemma handlePointerEvent_view:
  assumes "mode c = ''manual''"
  shows "throttle_view (handlePointerEvent now a b c) = queue_view now (throttle_view c)"
    and "isDragging (handlePointerEvent now a b c) = isDragging c"
    and "activePointerId (handlePointerEvent now a b c) = activePointerId c"
    and "mode (handlePointerEvent now a b c) = mode c"
  using assms
  by (simp_all add: handlePointerEvent_def Let_def queueStickSend_view applyStickData_view
      queueStickSend_fields queueStickSend_drag applyStickData_local)

lemma on_pointerdown_view:
  assumes "mode c = ''manual''"
  shows "throttle_view (on_pointerdown now pointerId a b c) = queue_view now (throttle_view c)"
    and "isDragging (on_pointerdown now pointerId a b c)"
    and "activePointerId (on_pointerdown now pointerId a b c) = Some pointerId"
    and "mode (on_pointerdown now pointerId a b c) = ''manual''"
proof -
  let ?c1 = "c\<lparr>isDragging := True, activePointerId := Some pointerId\<rparr>"
  have m: "mode ?c1 = ''manual''" using assms by simp
  have v: "throttle_view ?c1 = throttle_view c" by (simp add: throttle_view_def)
  show "throttle_view (on_pointerdown now pointerId a b c) = queue_view now (throttle_view c)"
    and "isDragging (on_pointerdown now pointerId a b c)"
    and "activePointerId (on_pointerdown now pointerId a b c) = Some pointerId"
    and "mode (on_pointerdown now pointerId a b c) = ''manual''"
    using assms handlePointerEvent_view[OF m, of now a b] v
    by (simp_all add: on_pointerdown_def)
qed

lemma on_pointermove_view:
  assumes "mode c = ''manual''" and "isDragging c" and "activePointerId c = Some pointerId"
  shows "throttle_view (on_pointermove now pointerId a b c) = queue_view now (throttle_view c)"
  using assms handlePointerEvent_view(1)[OF assms(1), of now a b]
  by (simp add: on_pointermove_def)

lemma fire_stick_timer_view:
  assumes "throttle_view c = (True, sentAt, pending, [t], nxt, out)"
    and "ctimer_id t = h" and "ctimer_kind t = StickTimer"
    and "ctimer_armed t + ctimer_delay t \<le> now"
  shows "throttle_view (fire_ctimer now throws h c) = (True, now, None, [], nxt, out @ [now])"
proof -
  have f: "socket_OPEN c" "ctimers c = [t]" "next_ctimer c = nxt" "stick_times (outbox c) = out"
    using assms(1) by (simp_all add: throttle_view_def)
  show ?thesis using assms(2-4) f
    by (simp add: fire_ctimer_def Let_def sendStickPayload_def sendMessage_def throttle_view_def
        stick_times_append)
qed

text \<open>
  C7. A callback armed with \<open>setTimeout\<close> runs when its delay has elapsed or later, and
  a mutation can be handled in between. Then both throttles send twice within one
  window: the immediate branch sends and forgets the handle of the deferred send without
  cancelling its timer, which fires afterwards and sends again.

  Server: start-up pushes at 1000; the stick message at 1010 arms the deferred push, due
  at 1050; the stick message at 1050 is handled first and pushes at once; the timer's
  callback runs at 1051 and pushes again. Client: the socket opens at 1000 and the zero
  stick is sent; the pointer goes down at 1010, which arms the deferred send, due at
  1033; the pointer moves at 1033, which sends at once; the timer's callback runs at 1034
  and sends again.
\<close>

theorem throttle_late_timer_double_send:
  "timers (run default_config (startup default_config 1000)
      [Message 1010 (frame_of (Stick \<lparr>stick_x = 1, stick_y = 0, stick_mag = 1, stick_deg = 90\<rparr> 1010)),
       Message 1050 (frame_of (Stick \<lparr>stick_x = 1, stick_y = 0, stick_mag = 1, stick_deg = 90\<rparr> 1050))])
     = [\<lparr>timer_id = 0, timer_kind = ThrottleTimer, timer_due = 1050\<rparr>]
   \<and> map fst (requests (run default_config (startup default_config 1000)
      [Message 1010 (frame_of (Stick \<lparr>stick_x = 1, stick_y = 0, stick_mag = 1, stick_deg = 90\<rparr> 1010)),
       Message 1050 (frame_of (Stick \<lparr>stick_x = 1, stick_y = 0, stick_mag = 1, stick_deg = 90\<rparr> 1050)),
       Timer 1051 0])) = [1000, 1050, 1051]
   \<and> ctimers (crun (page_load 0 False)
      [SocketOpen 1000, ModeSwitch 1005 True, PointerDown 1010 1 1 0, PointerMove 1033 1 1 0])
     = [\<lparr>ctimer_id = 0, ctimer_kind = StickTimer, ctimer_armed = 1010, ctimer_delay = 23\<rparr>]
   \<and> stick_times (outbox (crun (page_load 0 False)
      [SocketOpen 1000, ModeSwitch 1005 True, PointerDown 1010 1 1 0, PointerMove 1033 1 1 0,
       CTimer 1034 False 0])) = [1000, 1033, 1034]"
proof -
  let ?k = "frame_of (Stick \<lparr>stick_x = 1, stick_y = 0, stick_mag = 1, stick_deg = 90\<rparr> 1010)"
  let ?k' = "frame_of (Stick \<lparr>stick_x = 1, stick_y = 0, stick_mag = 1, stick_deg = 90\<rparr> 1050)"
  have s1: "timers (run default_config (startup default_config 1000) [Message 1010 ?k, Message 1050 ?k'])
            = [\<lparr>timer_id = 0, timer_kind = ThrottleTimer, timer_due = 1050\<rparr>]"
    by (simp add: run_def startup_def on_message_def updateState_def scheduleNodeRedPush_def
        dispatch_def postToNodeRed_def setTimeout_def broadcast_def
        initial_server_def default_config_def NODE_RED_THROTTLE_MS_def Let_def)
  have s2: "map fst (requests (run default_config (startup default_config 1000)
              [Message 1010 ?k, Message 1050 ?k', Timer 1051 0])) = [1000, 1050, 1051]"
    by (simp add: run_def startup_def on_message_def updateState_def scheduleNodeRedPush_def
        dispatch_def postToNodeRed_def setTimeout_def fire_timer_def clearTimeout_def broadcast_def
        initial_server_def default_config_def NODE_RED_THROTTLE_MS_def Let_def)
  let ?c1 = "on_open 1000 (page_load 0 False)"
  let ?c2 = "on_modeSwitch_change 1005 True ?c1"
  let ?c3 = "on_pointerdown 1010 1 1 0 ?c2"
  let ?c4 = "on_pointermove 1033 1 1 0 ?c3"
  let ?t = "\<lparr>ctimer_id = 0, ctimer_kind = StickTimer, ctimer_armed = 1010, ctimer_delay = 23\<rparr>"
  have v0: "throttle_view (page_load 0 False) = (False, 0, None, [], 0, [])"
    by (rule page_load_view)
  have f0: "lastStickSend (page_load 0 False) = 0" "pendingStickTimeout (page_load 0 False) = None"
    "ctimers (page_load 0 False) = []" "next_ctimer (page_load 0 False) = 0"
    "stick_times (outbox (page_load 0 False)) = []"
    using v0 by (simp_all add: throttle_view_def)
  have v1: "throttle_view ?c1 = (True, 1000, None, [], 0, [1000])"
    by (simp add: on_open_view f0)
  have v2: "throttle_view ?c2 = (True, 1000, None, [], 0, [1000])"
    using v1 by (simp add: on_modeSwitch_change_view)
  have m2: "mode ?c2 = ''manual''" by (rule on_modeSwitch_change_manual)
  note d = on_pointerdown_view[OF m2, of 1010 1 1 0]
  have v3: "throttle_view ?c3 = (True, 1000, Some 0, [?t], 1, [1000])"
    using d(1) v2 by simp
  have v4: "throttle_view ?c4 = (True, 1033, None, [?t], 1, [1000, 1033])"
    using on_pointermove_view[OF d(4) d(2) d(3), of 1033 1 0] v3 by simp
  have v5: "throttle_view (fire_ctimer 1034 False 0 ?c4) = (True, 1034, None, [], 1, [1000, 1033] @ [1034])"
    by (rule fire_stick_timer_view[OF v4]) simp_all
  have c1: "ctimers ?c4 = [?t]" using v4 by (simp add: throttle_view_def)
  have c2: "stick_times (outbox (fire_ctimer 1034 False 0 ?c4)) = [1000, 1033, 1034]"
    using v5 by (simp add: throttle_view_def)
  show ?thesis using s1 s2 c1 c2 by (simp add: crun_def)
qed

section \<open>A server echo during a drag\<close>

lemma fire_stick_timer_outbox:
  assumes "socket_OPEN c" and "ctimers c = [t]" and "ctimer_id t = h"
    and "ctimer_kind t = StickTimer" and "ctimer_armed t + ctimer_delay t \<le> now"
  shows "outbox (fire_ctimer now throws h c) = outbox c @ [Stick (stick c) now]"
  using assms by (simp add: fire_ctimer_def Let_def sendStickPayload_def sendMessage_def)

text \<open>
  C10. The guard \<open>!isDragging || !fromServer\<close> in \<open>applyStickData\<close> shields only the thumb:
  \<open>state.stick\<close> is assigned before it, so stick data from the server does overwrite
  \<open>x, y, mag, deg\<close> during a drag, and the next deferred send transmits the server's
  values instead of the user's.

  The page is loaded, the socket opens at 100 and the zero stick is sent; the user
  switches to manual and at 120 presses the pad at its right edge: a drag is in progress,
  the stick is \<open>{1, 0, 1, 90}\<close> and its send is deferred to 133. At 125 a \<open>stick\<close> message
  with the zero vector arrives from the server: the client's stick becomes
  \<open>{0, 0, 0, 0}\<close> while the thumb stays at the right edge, and at 133 the deferred send
  transmits \<open>{0, 0, 0, 0}\<close>.
\<close>

theorem server_echo_overwrites_drag_stick:
  "isDragging (crun (page_load 0 False)
      [SocketOpen 100, ModeSwitch 110 True, PointerDown 120 1 1 0])
   \<and> stick (crun (page_load 0 False)
      [SocketOpen 100, ModeSwitch 110 True, PointerDown 120 1 1 0])
     = \<lparr>stick_x = 1, stick_y = 0, stick_mag = 1, stick_deg = 90\<rparr>
   \<and> stick (crun (page_load 0 False)
      [SocketOpen 100, ModeSwitch 110 True, PointerDown 120 1 1 0,
       ServerMessage 125 (SObject \<lparr>smsg_type = JStr ''stick'' NaN, smsg_mode = JUndefined,
                                   smsg_stick = Some zero_payload\<rparr>)])
     = \<lparr>stick_x = 0, stick_y = 0, stick_mag = 0, stick_deg = 0\<rparr>
   \<and> thumb (crun (page_load 0 False)
      [SocketOpen 100, ModeSwitch 110 True, PointerDown 120 1 1 0,
       ServerMessage 125 (SObject \<lparr>smsg_type = JStr ''stick'' NaN, smsg_mode = JUndefined,
                                   smsg_stick = Some zero_payload\<rparr>)]) = (1, 0)
   \<and> last (outbox (crun (page_load 0 False)
      [SocketOpen 100, ModeSwitch 110 True, PointerDown 120 1 1 0,
       ServerMessage 125 (SObject \<lparr>smsg_type = JStr ''stick'' NaN, smsg_mode = JUndefined,
                                   smsg_stick = Some zero_payload\<rparr>),
       CTimer 133 False 0]))
     = Stick \<lparr>stick_x = 0, stick_y = 0, stick_mag = 0, stick_deg = 0\<rparr> 133"
proof -
  let ?c1 = "on_open 100 (page_load 0 False)"
  let ?c2 = "on_modeSwitch_change 110 True ?c1"
  let ?c3 = "on_pointerdown 120 1 1 0 ?c2"
  let ?c4 = "applyStickData zero_payload True ?c3"
  let ?t = "\<lparr>ctimer_id = 0, ctimer_kind = StickTimer, ctimer_armed = 120, ctimer_delay = 13\<rparr>"
  have v0: "throttle_view (page_load 0 False) = (False, 0, None, [], 0, [])"
    by (rule page_load_view)
  have f0: "lastStickSend (page_load 0 False) = 0" "pendingStickTimeout (page_load 0 False) = None"
    "ctimers (page_load 0 False) = []" "next_ctimer (page_load 0 False) = 0"
    "stick_times (outbox (page_load 0 False)) = []"
    using v0 by (simp_all add: throttle_view_def)
  have v1: "throttle_view ?c1 = (True, 100, None, [], 0, [100])"
    by (simp add: on_open_view f0)
  have v2: "throttle_view ?c2 = (True, 100, None, [], 0, [100])"
    using v1 by (simp add: on_modeSwitch_change_view)
  have m2: "mode ?c2 = ''manual''" by (rule on_modeSwitch_change_manual)
  note v = on_pointerdown_view[OF m2, of 120 1 1 0]
  note d = on_pointerdown_right_edge[OF m2, of 120 1]
  have v3: "throttle_view ?c3 = (True, 100, Some 0, [?t], 1, [100])"
    using v(1) v2 by simp
  have v4: "throttle_view ?c4 = (True, 100, Some 0, [?t], 1, [100])"
    using v3 by (simp add: applyStickData_view)
  have s4: "stick ?c4 = clientStick zero_payload" and t4: "thumb ?c4 = (1, 0)"
    using applyStickData_fromServer_dragging[OF d(3), of zero_payload] d(2) by simp_all
  have o: "socket_OPEN ?c4" and ts: "ctimers ?c4 = [?t]"
    using v4 by (simp_all add: throttle_view_def)
  have "outbox (fire_ctimer 133 False 0 ?c4) = outbox ?c4 @ [Stick (stick ?c4) 133]"
    by (rule fire_stick_timer_outbox[OF o ts]) simp_all
  then have l: "last (outbox (fire_ctimer 133 False 0 ?c4)) = Stick (stick ?c4) 133"
    by simp
  show ?thesis using d s4 t4 l
    by (simp add: crun_def on_server_message_def clientStick_zero initialStickState_def)
qed

section \<open>The circuit breaker\<close>

text \<open>How often the warning of the breaker has been logged.\<close>

definition suppression_warnings :: "server \<Rightarrow> nat" where
  "suppression_warnings s =
     length (filter (\<lambda>e. e = Warn ''[Node-RED] Unable to reach (ECONNREFUSED). Suppressing requests'')
               (console s))"

text \<open>The cooldown timers that are pending.\<close>

definition pending_cooldowns :: "server \<Rightarrow> timer list" where
  "pending_cooldowns s = filter (\<lambda>t. timer_kind t = CooldownTimer) (timers s)"

text \<open>
  An event that is handled before the clock reaches \<open>T\<close> and is not the end of a
  downstream request.
\<close>

fun within_cooldown :: "int \<Rightarrow> event \<Rightarrow> bool" where
  "within_cooldown T (Message now f) = (now < T)"
| "within_cooldown T (Timer now h) = (now < T)"
| "within_cooldown T (Settled now r) = False"
| "within_cooldown T e = True"

lemma postToNodeRed_breaker:
  "nodeRedNextAttemptAt (postToNodeRed cfg now b s) = nodeRedNextAttemptAt s"
  "nodeRedNextAttemptAt s \<noteq> 0 \<Longrightarrow> now < nodeRedNextAttemptAt s
   \<Longrightarrow> requests (postToNodeRed cfg now b s) = requests s"
  by (simp_all add: postToNodeRed_def)

lemma dispatch_breaker:
  "nodeRedNextAttemptAt (dispatch cfg now s) = nodeRedNextAttemptAt s"
  "nodeRedNextAttemptAt s \<noteq> 0 \<Longrightarrow> now < nodeRedNextAttemptAt s
   \<Longrightarrow> requests (dispatch cfg now s) = requests s"
  by (simp_all add: dispatch_def Let_def postToNodeRed_breaker)

lemma scheduleNodeRedPush_breaker:
  "nodeRedNextAttemptAt (scheduleNodeRedPush cfg now s) = nodeRedNextAttemptAt s"
  "nodeRedNextAttemptAt s \<noteq> 0 \<Longrightarrow> now < nodeRedNextAttemptAt s
   \<Longrightarrow> requests (scheduleNodeRedPush cfg now s) = requests s"
  by (simp_all add: scheduleNodeRedPush_def Let_def dispatch_breaker setTimeout_def)

lemma suppression_warnings_console:
  "console s' = console s \<Longrightarrow> suppression_warnings s' = suppression_warnings s"
  by (simp add: suppression_warnings_def)

lemma on_message_shape:
  "on_message cfg now f s = s
   \<or> on_message cfg now f s = log (Warn ''[WS] Invalid JSON received'') s
   \<or> on_message cfg now f s = log (Warn ''[WS] Invalid mode received'') s
   \<or> on_message cfg now f s = log (Warn ''[WS] Unknown message type'') s
   \<or> (\<exists>nm nst m. on_message cfg now f s = broadcast m (updateState cfg now nm nst s))"
proof (cases f)
  case (Object m)
  show ?thesis
  proof (cases "is_string (mtype m) ''setMode''")
    case True
    show ?thesis
    proof (cases "validateMode (mmode m)")
      case valid: True
      have "on_message cfg now f s
            = broadcast (MsgMode (state_mode (updateState cfg now (Some (string_of (mmode m))) None s))
                                 (state_ts (updateState cfg now (Some (string_of (mmode m))) None s)))
                (updateState cfg now (Some (string_of (mmode m))) None s)"
        using Object True valid by (simp add: on_message_def Let_def)
      then show ?thesis by blast
    next
      case False
      then show ?thesis using Object True by (simp add: on_message_def)
    qed
  next
    case False
    show ?thesis
    proof (cases "is_string (mtype m) ''stick''")
      case stick: True
      have "on_message cfg now f s
            = broadcast (MsgStick (state_stick (updateState cfg now None (Some (normalizeStickPayload m)) s))
                                  (state_ts (updateState cfg now None (Some (normalizeStickPayload m)) s)))
                (updateState cfg now None (Some (normalizeStickPayload m)) s)"
        using Object False stick by (simp add: on_message_def Let_def)
      then show ?thesis by blast
    next
      case other: False
      then show ?thesis using Object False by (simp add: on_message_def)
    qed
  qed
qed (simp_all add: on_message_def)

lemma log_breaker:
  "nodeRedNextAttemptAt (log e s) = nodeRedNextAttemptAt s"
  "requests (log e s) = requests s"
  "timers (log e s) = timers s"
  "next_timer (log e s) = next_timer s"
  "nodeRedCooldownTimer (log e s) = nodeRedCooldownTimer s"
  "nodeRedSuppressedWarningLogged (log e s) = nodeRedSuppressedWarningLogged s"
  by (simp_all add: log_def)

lemma log_other_warning:
  "e \<noteq> Warn ''[Node-RED] Unable to reach (ECONNREFUSED). Suppressing requests''
   \<Longrightarrow> suppression_warnings (log e s) = suppression_warnings s"
  by (simp add: log_def suppression_warnings_def)

lemma broadcast_breaker:
  "nodeRedNextAttemptAt (broadcast m s) = nodeRedNextAttemptAt s"
  "requests (broadcast m s) = requests s"
  "timers (broadcast m s) = timers s"
  "next_timer (broadcast m s) = next_timer s"
  "nodeRedCooldownTimer (broadcast m s) = nodeRedCooldownTimer s"
  "nodeRedSuppressedWarningLogged (broadcast m s) = nodeRedSuppressedWarningLogged s"
  by (simp_all add: broadcast_def)

lemma updateState_breaker:
  "nodeRedNextAttemptAt (updateState cfg now nm nst s) = nodeRedNextAttemptAt s"
  "nodeRedNextAttemptAt s \<noteq> 0 \<Longrightarrow> now < nodeRedNextAttemptAt s
   \<Longrightarrow> requests (updateState cfg now nm nst s) = requests s"
  by (simp_all add: updateState_def scheduleNodeRedPush_breaker)

lemma on_message_breaker:
  "nodeRedNextAttemptAt (on_message cfg now f s) = nodeRedNextAttemptAt s"
  "nodeRedNextAttemptAt s \<noteq> 0 \<Longrightarrow> now < nodeRedNextAttemptAt s
   \<Longrightarrow> requests (on_message cfg now f s) = requests s"
  "suppression_warnings (on_message cfg now f s) = suppression_warnings s"
proof -
  note sh = on_message_shape[of cfg now f s]
  show "nodeRedNextAttemptAt (on_message cfg now f s) = nodeRedNextAttemptAt s"
    using sh by (auto simp: log_breaker broadcast_breaker updateState_breaker)
  show "requests (on_message cfg now f s) = requests s"
    if "nodeRedNextAttemptAt s \<noteq> 0" "now < nodeRedNextAttemptAt s"
    using sh that by (auto simp: log_breaker broadcast_breaker updateState_breaker)
  have "suppression_warnings (broadcast m (updateState cfg now nm nst s)) = suppression_warnings s"
    for m nm nst
    by (rule suppression_warnings_console) (simp add: broadcast_store updateState_store)
  then show "suppression_warnings (on_message cfg now f s) = suppression_warnings s"
    using sh by (auto simp: log_other_warning)
qed

lemma clearTimeout_breaker:
  "nodeRedNextAttemptAt (clearTimeout h s) = nodeRedNextAttemptAt s"
  "requests (clearTimeout h s) = requests s"
  "console (clearTimeout h s) = console s"
  by (simp_all add: clearTimeout_def)

lemma fire_timer_shape:
  "fire_timer cfg now h s = s
   \<or> fire_timer cfg now h s = dispatch cfg now (clearTimeout h s)
   \<or> fire_timer cfg now h s
     = scheduleNodeRedPush cfg now ((clearTimeout h s)\<lparr>nodeRedCooldownTimer := None\<rparr>)"
  by (simp add: fire_timer_def Let_def split: option.splits timer_kind.splits)

lemma fire_timer_breaker:
  "nodeRedNextAttemptAt (fire_timer cfg now h s) = nodeRedNextAttemptAt s"
  "nodeRedNextAttemptAt s \<noteq> 0 \<Longrightarrow> now < nodeRedNextAttemptAt s
   \<Longrightarrow> requests (fire_timer cfg now h s) = requests s"
  "suppression_warnings (fire_timer cfg now h s) = suppression_warnings s"
proof -
  note sh = fire_timer_shape[of cfg now h s]
  show "nodeRedNextAttemptAt (fire_timer cfg now h s) = nodeRedNextAttemptAt s"
    using sh by (auto simp: dispatch_breaker scheduleNodeRedPush_breaker clearTimeout_breaker)
  show "requests (fire_timer cfg now h s) = requests s"
    if "nodeRedNextAttemptAt s \<noteq> 0" "now < nodeRedNextAttemptAt s"
    using sh that by (auto simp: dispatch_breaker scheduleNodeRedPush_breaker clearTimeout_breaker)
  have "console (fire_timer cfg now h s) = console s"
    using sh by (auto simp: dispatch_store scheduleNodeRedPush_store clearTimeout_breaker)
  then show "suppression_warnings (fire_timer cfg now h s) = suppression_warnings s"
    by (rule suppression_warnings_console)
qed

lemma step_within_cooldown:
  assumes "nodeRedNextAttemptAt s \<noteq> 0" and "within_cooldown (nodeRedNextAttemptAt s) e"
  shows "nodeRedNextAttemptAt (step cfg s e) = nodeRedNextAttemptAt s"
    and "requests (step cfg s e) = requests s"
    and "suppression_warnings (step cfg s e) = suppression_warnings s"
proof -
  have "nodeRedNextAttemptAt (step cfg s e) = nodeRedNextAttemptAt s
        \<and> requests (step cfg s e) = requests s
        \<and> suppression_warnings (step cfg s e) = suppression_warnings s"
  proof (cases e)
    case (Message now f)
    then show ?thesis using assms by (simp add: on_message_breaker)
  next
    case (Timer now h)
    then show ?thesis using assms by (simp add: fire_timer_breaker)
  next
    case (Settled now r)
    then show ?thesis using assms by simp
  next
    case (Connection ws)
    then show ?thesis by (simp add: on_connection_def suppression_warnings_def)
  next
    case (Pong ws)
    then show ?thesis by (simp add: on_pong_def suppression_warnings_def)
  next
    case (Close ws)
    then show ?thesis by (simp add: on_close_def suppression_warnings_def)
  next
    case Heartbeat
    then show ?thesis by (simp add: heartbeat_def suppression_warnings_def split: prod.splits)
  qed
  then show "nodeRedNextAttemptAt (step cfg s e) = nodeRedNextAttemptAt s"
    and "requests (step cfg s e) = requests s"
    and "suppression_warnings (step cfg s e) = suppression_warnings s"
    by simp_all
qed

lemma run_within_cooldown:
  assumes "nodeRedNextAttemptAt s \<noteq> 0" and "list_all (within_cooldown (nodeRedNextAttemptAt s)) evs"
  shows "nodeRedNextAttemptAt (run cfg s evs) = nodeRedNextAttemptAt s
         \<and> requests (run cfg s evs) = requests s
         \<and> suppression_warnings (run cfg s evs) = suppression_warnings s"
  using assms unfolding run_def
proof (induction evs arbitrary: s)
  case Nil
  show ?case by simp
next
  case (Cons e evs)
  have w: "within_cooldown (nodeRedNextAttemptAt s) e" using Cons.prems(2) by simp
  note st = step_within_cooldown[OF Cons.prems(1) w, of cfg]
  have "list_all (within_cooldown (nodeRedNextAttemptAt (step cfg s e))) evs"
    using Cons.prems(2) st(1) by simp
  then show ?case using Cons.IH[of "step cfg s e"] Cons.prems(1) st by simp
qed

text \<open>
  Handles are fresh and distinct, and the pending cooldown timers are exactly the one
  that \<open>nodeRedCooldownTimer\<close> holds, if it holds one.
\<close>

definition timer_inv :: "server \<Rightarrow> bool" where
  "timer_inv s =
     ((\<forall>t \<in> set (timers s). timer_id t < next_timer s)
      \<and> distinct (map timer_id (timers s))
      \<and> map timer_id (pending_cooldowns s)
          = (case nodeRedCooldownTimer s of None \<Rightarrow> [] | Some h \<Rightarrow> [h]))"

lemma timer_inv_cong:
  assumes "timers s' = timers s" "next_timer s' = next_timer s"
    "nodeRedCooldownTimer s' = nodeRedCooldownTimer s"
  shows "timer_inv s' = timer_inv s"
  using assms by (simp add: timer_inv_def pending_cooldowns_def)

lemma postToNodeRed_timers:
  "timers (postToNodeRed cfg now b s) = timers s"
  "next_timer (postToNodeRed cfg now b s) = next_timer s"
  "nodeRedCooldownTimer (postToNodeRed cfg now b s) = nodeRedCooldownTimer s"
  by (simp_all add: postToNodeRed_def)

lemma dispatch_timers:
  "timers (dispatch cfg now s) = timers s"
  "next_timer (dispatch cfg now s) = next_timer s"
  "nodeRedCooldownTimer (dispatch cfg now s) = nodeRedCooldownTimer s"
  by (simp_all add: dispatch_def Let_def postToNodeRed_timers)

lemma timer_inv_throttle_timer:
  assumes "timer_inv s"
  shows "timer_inv ((snd (setTimeout ThrottleTimer due s))\<lparr>nodeRedTimeout := h\<rparr>)"
  using assms
  by (auto simp: timer_inv_def pending_cooldowns_def setTimeout_def less_Suc_eq)

lemma scheduleNodeRedPush_inv: "timer_inv s \<Longrightarrow> timer_inv (scheduleNodeRedPush cfg now s)"
proof -
  assume i: "timer_inv s"
  have a: "timer_inv (s\<lparr>timers := timers s @ [\<lparr>timer_id = next_timer s, timer_kind = ThrottleTimer,
                                                timer_due = due\<rparr>],
                         next_timer := Suc (next_timer s),
                         nodeRedTimeout := Some (next_timer s)\<rparr>)" for due
    using timer_inv_throttle_timer[OF i, where due = due and h = "Some (next_timer s)"]
    by (simp add: setTimeout_def)
  have d: "timer_inv (dispatch cfg now s)"
    using i by (simp add: timer_inv_cong[OF dispatch_timers])
  show ?thesis using i a d
    by (simp add: scheduleNodeRedPush_def Let_def setTimeout_def)
qed

lemma updateState_inv: "timer_inv s \<Longrightarrow> timer_inv (updateState cfg now nm nst s)"
  unfolding updateState_def
  by (rule scheduleNodeRedPush_inv) (simp add: timer_inv_def pending_cooldowns_def)

lemma on_message_inv: "timer_inv s \<Longrightarrow> timer_inv (on_message cfg now f s)"
  using on_message_shape[of cfg now f s] updateState_inv[of s cfg now]
  by (auto simp: timer_inv_cong[OF log_breaker(3,4,5)] timer_inv_cong[OF broadcast_breaker(3,4,5)])

lemma clearTimeout_other_kind:
  assumes "distinct (map timer_id ts)" and "t \<in> set ts" and "timer_kind t \<noteq> CooldownTimer"
  shows "filter (\<lambda>u. timer_kind u = CooldownTimer) (filter (\<lambda>u. timer_id u \<noteq> timer_id t) ts)
         = filter (\<lambda>u. timer_kind u = CooldownTimer) ts"
proof -
  have "timer_id u \<noteq> timer_id t" if "u \<in> set ts" "timer_kind u = CooldownTimer" for u
  proof
    assume "timer_id u = timer_id t"
    then have "u = t" using assms(1,2) that(1) by (auto simp: distinct_map inj_on_def)
    then show False using that(2) assms(3) by simp
  qed
  then show ?thesis by (auto simp: filter_filter intro!: filter_cong)
qed

lemma clearTimeout_held:
  assumes "map timer_id (filter (\<lambda>u. timer_kind u = CooldownTimer) ts) = [h]"
  shows "filter (\<lambda>u. timer_kind u = CooldownTimer) (filter (\<lambda>u. timer_id u \<noteq> h) ts) = []"
proof -
  have "\<forall>u \<in> set (filter (\<lambda>u. timer_kind u = CooldownTimer) ts). timer_id u = h"
  proof
    fix u assume "u \<in> set (filter (\<lambda>u. timer_kind u = CooldownTimer) ts)"
    then have "timer_id u \<in> set (map timer_id (filter (\<lambda>u. timer_kind u = CooldownTimer) ts))"
      by (simp del: set_filter)
    then show "timer_id u = h" unfolding assms by simp
  qed
  then show ?thesis by (auto simp: filter_empty_conv)
qed

lemma clearTimeout_basic:
  assumes "timer_inv s"
  shows "\<forall>t \<in> set (timers (clearTimeout h s)). timer_id t < next_timer (clearTimeout h s)"
    and "distinct (map timer_id (timers (clearTimeout h s)))"
  using assms by (auto simp: timer_inv_def clearTimeout_def distinct_map_filter)

lemma fire_timer_inv: "timer_inv s \<Longrightarrow> timer_inv (fire_timer cfg now h s)"
proof -
  assume i: "timer_inv s"
  show ?thesis
  proof (cases "find (\<lambda>t. timer_id t = h) (timers s)")
    case None
    then show ?thesis using i by (simp add: fire_timer_def)
  next
    case (Some t)
    then have t: "t \<in> set (timers s)" "timer_id t = h"
      by (auto simp: find_Some_iff)
    note b = clearTimeout_basic[OF i, of h]
    show ?thesis
    proof (cases "now < timer_due t")
      case True
      then show ?thesis using i Some by (simp add: fire_timer_def)
    next
      case False
      show ?thesis
      proof (cases "timer_kind t")
        case ThrottleTimer
        have "pending_cooldowns (clearTimeout h s) = pending_cooldowns s"
          using clearTimeout_other_kind[of "timers s" t] i t ThrottleTimer
          by (simp add: timer_inv_def pending_cooldowns_def clearTimeout_def del: filter_filter)
        then have "timer_inv (clearTimeout h s)"
          using i b by (simp add: timer_inv_def clearTimeout_def)
        then have "timer_inv (dispatch cfg now (clearTimeout h s))"
          by (simp add: timer_inv_cong[OF dispatch_timers])
        then show ?thesis using Some False ThrottleTimer by (simp add: fire_timer_def Let_def)
      next
        case CooldownTimer
        have "h \<in> set (map timer_id (pending_cooldowns s))"
          using t CooldownTimer by (auto simp: pending_cooldowns_def)
        then have held: "map timer_id (pending_cooldowns s) = [h]"
          using i by (auto simp: timer_inv_def split: option.splits)
        have "pending_cooldowns (clearTimeout h s) = []"
          using clearTimeout_held[OF held[unfolded pending_cooldowns_def]]
          by (simp add: pending_cooldowns_def clearTimeout_def del: filter_filter)
        then have "timer_inv ((clearTimeout h s)\<lparr>nodeRedCooldownTimer := None\<rparr>)"
          using b by (simp add: timer_inv_def pending_cooldowns_def clearTimeout_def)
        then have "timer_inv (scheduleNodeRedPush cfg now ((clearTimeout h s)\<lparr>nodeRedCooldownTimer := None\<rparr>))"
          by (rule scheduleNodeRedPush_inv)
        then show ?thesis using Some False CooldownTimer by (simp add: fire_timer_def Let_def)
      qed
    qed
  qed
qed

lemma settled_refused:
  assumes "0 < NODE_RED_RETRY_COOLDOWN_MS cfg"
  shows "nodeRedNextAttemptAt (postToNodeRed_settled cfg now (FetchError ''ECONNREFUSED'') s)
         = now + NODE_RED_RETRY_COOLDOWN_MS cfg"
    and "nodeRedSuppressedWarningLogged (postToNodeRed_settled cfg now (FetchError ''ECONNREFUSED'') s)"
    and "console (postToNodeRed_settled cfg now (FetchError ''ECONNREFUSED'') s)
         = console s @ (if nodeRedSuppressedWarningLogged s then []
                        else [Warn ''[Node-RED] Unable to reach (ECONNREFUSED). Suppressing requests''])"
    and "requests (postToNodeRed_settled cfg now (FetchError ''ECONNREFUSED'') s) = requests s"
    and "timers (postToNodeRed_settled cfg now (FetchError ''ECONNREFUSED'') s)
         = (if nodeRedCooldownTimer s = None
            then timers s @ [\<lparr>timer_id = next_timer s, timer_kind = CooldownTimer,
                               timer_due = now + NODE_RED_RETRY_COOLDOWN_MS cfg\<rparr>]
            else timers s)"
    and "next_timer (postToNodeRed_settled cfg now (FetchError ''ECONNREFUSED'') s)
         = (if nodeRedCooldownTimer s = None then Suc (next_timer s) else next_timer s)"
    and "nodeRedCooldownTimer (postToNodeRed_settled cfg now (FetchError ''ECONNREFUSED'') s)
         = (if nodeRedCooldownTimer s = None then Some (next_timer s) else nodeRedCooldownTimer s)"
  using assms
  by (simp_all add: postToNodeRed_settled_def Let_def log_def setTimeout_def max_def)

lemma settled_refused_inv:
  assumes "0 < NODE_RED_RETRY_COOLDOWN_MS cfg" and "timer_inv s"
  shows "timer_inv (postToNodeRed_settled cfg now (FetchError ''ECONNREFUSED'') s)"
  using assms(2) unfolding timer_inv_def pending_cooldowns_def settled_refused(5,6,7)[OF assms(1)]
  by (auto simp: less_Suc_eq split: option.splits)

lemma settled_refused_one_timer:
  assumes "0 < NODE_RED_RETRY_COOLDOWN_MS cfg" and "timer_inv s"
  shows "length (pending_cooldowns (postToNodeRed_settled cfg now (FetchError ''ECONNREFUSED'') s)) = 1"
proof -
  let ?s' = "postToNodeRed_settled cfg now (FetchError ''ECONNREFUSED'') s"
  obtain h where "nodeRedCooldownTimer ?s' = Some h"
    unfolding settled_refused(7)[OF assms(1)] by (cases "nodeRedCooldownTimer s") auto
  then have "map timer_id (pending_cooldowns ?s') = [h]"
    using settled_refused_inv[OF assms, of now] by (simp add: timer_inv_def)
  then have "length (map timer_id (pending_cooldowns ?s')) = 1" by simp
  then show ?thesis by simp
qed

lemma settled_response:
  "nodeRedNextAttemptAt (postToNodeRed_settled cfg now (Response ok) s) = 0"
  "\<not> nodeRedSuppressedWarningLogged (postToNodeRed_settled cfg now (Response ok) s)"
  "nodeRedCooldownTimer (postToNodeRed_settled cfg now (Response ok) s) = None"
  "next_timer (postToNodeRed_settled cfg now (Response ok) s) = next_timer s"
  "timers (postToNodeRed_settled cfg now (Response ok) s)
   = (case nodeRedCooldownTimer s of None \<Rightarrow> timers s
      | Some h \<Rightarrow> filter (\<lambda>t. timer_id t \<noteq> h) (timers s))"
  by (simp_all add: postToNodeRed_settled_def Let_def log_def clearTimeout_def
      split: option.splits)

lemma settled_response_inv:
  assumes "timer_inv s"
  shows "timer_inv (postToNodeRed_settled cfg now (Response ok) s)"
    and "pending_cooldowns (postToNodeRed_settled cfg now (Response ok) s) = []"
proof -
  have p: "pending_cooldowns (postToNodeRed_settled cfg now (Response ok) s) = []"
  proof (cases "nodeRedCooldownTimer s")
    case None
    then show ?thesis using assms
      by (simp add: pending_cooldowns_def settled_response(5) timer_inv_def)
  next
    case (Some h)
    then have "map timer_id (filter (\<lambda>u. timer_kind u = CooldownTimer) (timers s)) = [h]"
      using assms by (simp add: timer_inv_def pending_cooldowns_def)
    then show ?thesis using Some clearTimeout_held[of "timers s" h]
      by (simp add: pending_cooldowns_def settled_response(5) del: filter_filter)
  qed
  show "pending_cooldowns (postToNodeRed_settled cfg now (Response ok) s) = []" by (rule p)
  have "\<forall>t \<in> set (timers (postToNodeRed_settled cfg now (Response ok) s)). timer_id t < next_timer s"
    using assms by (auto simp: settled_response(5) timer_inv_def split: option.splits)
  moreover have "distinct (map timer_id (timers (postToNodeRed_settled cfg now (Response ok) s)))"
    using assms by (auto simp: settled_response(5) timer_inv_def distinct_map_filter split: option.splits)
  ultimately show "timer_inv (postToNodeRed_settled cfg now (Response ok) s)"
    using p by (simp add: timer_inv_def settled_response(3,4))
qed

lemma settled_other:
  "nodeRedNextAttemptAt (postToNodeRed_settled cfg now AbortError s) = nodeRedNextAttemptAt s"
  "nodeRedSuppressedWarningLogged (postToNodeRed_settled cfg now AbortError s)
   = nodeRedSuppressedWarningLogged s"
  "postToNodeRed_settled cfg now AbortError s = log (Warn ''[Node-RED] Request timed out'') s"
  "code \<noteq> ''ECONNREFUSED'' \<Longrightarrow>
   postToNodeRed_settled cfg now (FetchError code) s = log (Error ''[Node-RED] Request failed'') s"
  by (simp_all add: postToNodeRed_settled_def log_def)

lemma postToNodeRed_settled_inv:
  assumes "0 < NODE_RED_RETRY_COOLDOWN_MS cfg" and "timer_inv s"
  shows "timer_inv (postToNodeRed_settled cfg now r s)"
proof (cases r)
  case (Response ok)
  then show ?thesis using settled_response_inv(1)[OF assms(2)] by simp
next
  case AbortError
  then show ?thesis using assms(2)
    by (simp add: settled_other(3) timer_inv_cong[OF log_breaker(3,4,5)])
next
  case (FetchError code)
  show ?thesis
  proof (cases "code = ''ECONNREFUSED''")
    case True
    then show ?thesis using FetchError settled_refused_inv[OF assms] by simp
  next
    case False
    then show ?thesis using FetchError assms(2)
      by (simp add: settled_other(4) timer_inv_cong[OF log_breaker(3,4,5)])
  qed
qed

lemma step_timer_inv:
  assumes "0 < NODE_RED_RETRY_COOLDOWN_MS cfg" and "timer_inv s"
  shows "timer_inv (step cfg s e)"
proof (cases e)
  case (Message now f)
  then show ?thesis using on_message_inv[OF assms(2)] by simp
next
  case (Timer now h)
  then show ?thesis using fire_timer_inv[OF assms(2)] by simp
next
  case (Settled now r)
  then show ?thesis using postToNodeRed_settled_inv[OF assms] by simp
next
  case (Connection ws)
  then show ?thesis using assms(2)
    by (simp add: on_connection_def timer_inv_def pending_cooldowns_def)
next
  case (Pong ws)
  then show ?thesis using assms(2) by (simp add: on_pong_def timer_inv_def pending_cooldowns_def)
next
  case (Close ws)
  then show ?thesis using assms(2) by (simp add: on_close_def timer_inv_def pending_cooldowns_def)
next
  case Heartbeat
  then show ?thesis using assms(2)
    by (simp add: heartbeat_def timer_inv_def pending_cooldowns_def split: prod.splits)
qed

lemma run_timer_inv:
  assumes "0 < NODE_RED_RETRY_COOLDOWN_MS cfg"
  shows "timer_inv s \<Longrightarrow> timer_inv (run cfg s evs)"
  unfolding run_def
  by (induction evs arbitrary: s) (simp_all add: step_timer_inv[OF assms])

lemma startup_timer_inv: "timer_inv (startup cfg t0)"
proof -
  have "timer_inv (initial_server t0)"
    by (simp add: timer_inv_def pending_cooldowns_def initial_server_def)
  then show ?thesis unfolding startup_def by (rule scheduleNodeRedPush_inv)
qed

text \<open>
  C6 (as the code has it). Let a downstream request end with a connection-refused error
  at clock \<open>now\<close>, in any state the server can reach. The breaker is then open until
  \<open>now\<close> plus the cooldown: whatever is handled before that moment (frames, timers,
  connections, heartbeats; not the end of another request) issues no downstream request
  and logs no further breaker warning. The warning is logged at the failure exactly when
  it has not been logged since start-up or since the last request that got a response;
  a failure while the flag is still set opens the breaker again without a warning.
  Afterwards exactly one cooldown timer is pending, due when the cooldown elapses if it
  was armed by this failure. A response of any status closes the breaker, resets the
  flag and leaves no cooldown timer; a timeout or another error leaves the breaker as it
  was.
\<close>

theorem breaker_opens_on_refusal:
  assumes "0 < NODE_RED_RETRY_COOLDOWN_MS cfg" and "0 \<le> now"
    and "list_all (within_cooldown (now + NODE_RED_RETRY_COOLDOWN_MS cfg)) evs"
  shows "nodeRedNextAttemptAt
           (postToNodeRed_settled cfg now (FetchError ''ECONNREFUSED'') (run cfg (startup cfg t0) pre))
         = now + NODE_RED_RETRY_COOLDOWN_MS cfg
       \<and> requests (run cfg
           (postToNodeRed_settled cfg now (FetchError ''ECONNREFUSED'') (run cfg (startup cfg t0) pre)) evs)
         = requests (run cfg (startup cfg t0) pre)
       \<and> suppression_warnings (run cfg
           (postToNodeRed_settled cfg now (FetchError ''ECONNREFUSED'') (run cfg (startup cfg t0) pre)) evs)
         = suppression_warnings (run cfg (startup cfg t0) pre)
           + (if nodeRedSuppressedWarningLogged (run cfg (startup cfg t0) pre) then 0 else 1)
       \<and> nodeRedSuppressedWarningLogged
           (postToNodeRed_settled cfg now (FetchError ''ECONNREFUSED'') (run cfg (startup cfg t0) pre))
       \<and> length (pending_cooldowns
           (postToNodeRed_settled cfg now (FetchError ''ECONNREFUSED'') (run cfg (startup cfg t0) pre))) = 1
       \<and> (nodeRedCooldownTimer (run cfg (startup cfg t0) pre) = None \<longrightarrow>
            map timer_due (pending_cooldowns
              (postToNodeRed_settled cfg now (FetchError ''ECONNREFUSED'') (run cfg (startup cfg t0) pre)))
            = [now + NODE_RED_RETRY_COOLDOWN_MS cfg])
       \<and> nodeRedNextAttemptAt (postToNodeRed_settled cfg now (Response ok) (run cfg (startup cfg t0) pre)) = 0
       \<and> \<not> nodeRedSuppressedWarningLogged
             (postToNodeRed_settled cfg now (Response ok) (run cfg (startup cfg t0) pre))
       \<and> pending_cooldowns (postToNodeRed_settled cfg now (Response ok) (run cfg (startup cfg t0) pre)) = []
       \<and> nodeRedNextAttemptAt (postToNodeRed_settled cfg now AbortError (run cfg (startup cfg t0) pre))
         = nodeRedNextAttemptAt (run cfg (startup cfg t0) pre)
       \<and> (code \<noteq> ''ECONNREFUSED'' \<longrightarrow>
            nodeRedNextAttemptAt (postToNodeRed_settled cfg now (FetchError code) (run cfg (startup cfg t0) pre))
            = nodeRedNextAttemptAt (run cfg (startup cfg t0) pre))"
proof -
  let ?s = "run cfg (startup cfg t0) pre"
  let ?s' = "postToNodeRed_settled cfg now (FetchError ''ECONNREFUSED'') ?s"
  let ?T = "now + NODE_RED_RETRY_COOLDOWN_MS cfg"
  note r = settled_refused[OF assms(1), of now ?s]
  have i: "timer_inv ?s" by (intro run_timer_inv[OF assms(1)] startup_timer_inv)
  have T: "nodeRedNextAttemptAt ?s' \<noteq> 0" using r(1) assms(1,2) by simp
  have w: "list_all (within_cooldown (nodeRedNextAttemptAt ?s')) evs" using assms(3) r(1) by simp
  note win = run_within_cooldown[OF T w, of cfg]
  have sw: "suppression_warnings ?s'
            = suppression_warnings ?s + (if nodeRedSuppressedWarningLogged ?s then 0 else 1)"
    by (simp add: suppression_warnings_def r(3))
  have one: "length (pending_cooldowns ?s') = 1"
    by (rule settled_refused_one_timer[OF assms(1) i])
  have due: "map timer_due (pending_cooldowns ?s') = [?T]" if "nodeRedCooldownTimer ?s = None"
    using that i by (simp add: pending_cooldowns_def r(5) timer_inv_def)
  show ?thesis
    using r(1,2,4) win sw one due settled_response(1,2)[of cfg now ok ?s]
      settled_response_inv(2)[OF i, of cfg now ok] settled_other(1)[of cfg now ?s]
      settled_other(4)[of code cfg now ?s] log_breaker(1)
    by simp
qed

theorem breaker_opens_on_refusal_witness:
  "0 < NODE_RED_RETRY_COOLDOWN_MS default_config
   \<and> list_all (within_cooldown (1005 + NODE_RED_RETRY_COOLDOWN_MS default_config))
        [Message 2000 (frame_of (SetMode ''manual'' 2000)), Heartbeat]
   \<and> nodeRedNextAttemptAt
        (postToNodeRed_settled default_config 1005 (FetchError ''ECONNREFUSED'')
           (run default_config (startup default_config 1000) []))
      = 1005 + NODE_RED_RETRY_COOLDOWN_MS default_config
   \<and> requests (run default_config
        (postToNodeRed_settled default_config 1005 (FetchError ''ECONNREFUSED'')
           (run default_config (startup default_config 1000) []))
        [Message 2000 (frame_of (SetMode ''manual'' 2000)), Heartbeat])
      = requests (run default_config (startup default_config 1000) [])
   \<and> length (pending_cooldowns
        (postToNodeRed_settled default_config 1005 (FetchError ''ECONNREFUSED'')
           (run default_config (startup default_config 1000) []))) = 1"
proof -
  have a: "0 < NODE_RED_RETRY_COOLDOWN_MS default_config" by (simp add: default_config_def)
  have b: "(0::int) \<le> 1005" by simp
  have c: "list_all (within_cooldown (1005 + NODE_RED_RETRY_COOLDOWN_MS default_config))
             [Message 2000 (frame_of (SetMode ''manual'' 2000)), Heartbeat]"
    by (simp add: default_config_def)
  show ?thesis
    using a c breaker_opens_on_refusal[OF a b c, where ?t0.0 = 1000 and pre = "[]"]
    by blast
qed

text \<open>
  C6 as the specification states it fails. Start-up issues a request at 1000, which is
  refused at 1005: the breaker opens until 11005 and the warning is logged. The cooldown
  timer fires at 11005 and a request is issued again; it is refused at 11010 and the
  breaker opens until 21010. No warning is logged for this second window: the console
  still holds the single warning of the first.
\<close>

theorem breaker_second_window_counterexample:
  "suppression_warnings (run default_config (startup default_config 1000)
      [Settled 1005 (FetchError ''ECONNREFUSED'')]) = 1
   \<and> nodeRedNextAttemptAt (run default_config (startup default_config 1000)
      [Settled 1005 (FetchError ''ECONNREFUSED'')]) = 11005
   \<and> map fst (requests (run default_config (startup default_config 1000)
      [Settled 1005 (FetchError ''ECONNREFUSED''), Timer 11005 0])) = [1000, 11005]
   \<and> nodeRedNextAttemptAt (run default_config (startup default_config 1000)
      [Settled 1005 (FetchError ''ECONNREFUSED''), Timer 11005 0,
       Settled 11010 (FetchError ''ECONNREFUSED'')]) = 21010
   \<and> suppression_warnings (run default_config (startup default_config 1000)
      [Settled 1005 (FetchError ''ECONNREFUSED''), Timer 11005 0,
       Settled 11010 (FetchError ''ECONNREFUSED'')]) = 1"
  by (simp add: run_def startup_def scheduleNodeRedPush_def dispatch_def postToNodeRed_def
      postToNodeRed_settled_def setTimeout_def fire_timer_def clearTimeout_def log_def
      initial_server_def default_config_def NODE_RED_THROTTLE_MS_def suppression_warnings_def
      Let_def)

subsection \<open>The server's throttle when deferred pushes run on time\<close>

text \<open>
  Successive clock values that are at least one throttle window apart.
\<close>

fun spaced :: "int list \<Rightarrow> bool" where
  "spaced [] = True"
| "spaced [a] = True"
| "spaced (a # b # ts) = (a + NODE_RED_THROTTLE_MS \<le> b \<and> spaced (b # ts))"

text \<open>
  An event is on time when it calls \<open>scheduleNodeRedPush\<close> only before every pending
  deferred push is due: a deferred push that is due has run (as the event \<open>Timer\<close> for
  its own handle) before the next frame or cooldown timer is handled.
\<close>

fun on_time :: "server \<Rightarrow> event \<Rightarrow> bool" where
  "on_time s (Message now f) =
     list_all (\<lambda>u. timer_kind u = CooldownTimer \<or> now < timer_due u) (timers s)"
| "on_time s (Timer now h) =
     list_all (\<lambda>u. timer_kind u = CooldownTimer \<or> timer_id u = h \<or> now < timer_due u) (timers s)"
| "on_time s e = True"

fun run_on_time :: "config \<Rightarrow> server \<Rightarrow> event list \<Rightarrow> bool" where
  "run_on_time cfg s [] = True"
| "run_on_time cfg s (e # evs) = (on_time s e \<and> run_on_time cfg (step cfg s e) evs)"

text \<open>
  Every pending deferred push is the one \<open>nodeRedTimeout\<close> holds and is due one window
  after the last dispatch; no request is later than the last dispatch; requests are
  spaced.
\<close>

definition throttle_inv :: "server \<Rightarrow> bool" where
  "throttle_inv s =
     (list_all (\<lambda>u. timer_kind u = CooldownTimer
                     \<or> (nodeRedTimeout s = Some (timer_id u)
                        \<and> timer_due u = lastNodeRedDispatch s + NODE_RED_THROTTLE_MS)) (timers s)
      \<and> list_all (\<lambda>r. r \<le> lastNodeRedDispatch s) (map fst (requests s))
      \<and> spaced (map fst (requests s)))"

lemma spaced_snoc:
  "spaced ts \<Longrightarrow> list_all (\<lambda>r. r + NODE_RED_THROTTLE_MS \<le> now) ts \<Longrightarrow> spaced (ts @ [now])"
  by (induction ts rule: spaced.induct) simp_all

lemma throttle_inv_cong:
  assumes "timers s' = timers s" "nodeRedTimeout s' = nodeRedTimeout s"
    "lastNodeRedDispatch s' = lastNodeRedDispatch s" "requests s' = requests s"
  shows "throttle_inv s' = throttle_inv s"
  using assms by (simp add: throttle_inv_def)

lemma dispatch_throttle_inv:
  assumes "throttle_inv s"
    and "list_all (\<lambda>u. timer_kind u = CooldownTimer) (timers s)"
    and "lastNodeRedDispatch s + NODE_RED_THROTTLE_MS \<le> now"
  shows "throttle_inv (dispatch cfg now s)"
proof -
  have old: "list_all (\<lambda>r. r + NODE_RED_THROTTLE_MS \<le> now) (map fst (requests s))"
    using assms(1,3) by (auto simp: throttle_inv_def list_all_iff)
  have le: "list_all (\<lambda>r. r \<le> now) (map fst (requests s))"
    using old by (auto simp: list_all_iff NODE_RED_THROTTLE_MS_def)
  have sp: "spaced (map fst (requests s) @ [now])"
    using assms(1) old by (intro spaced_snoc) (simp_all add: throttle_inv_def)
  have t: "list_all (\<lambda>u. timer_kind u = CooldownTimer \<or> P u) (timers s)" for P
    using assms(2) by (auto simp: list_all_iff)
  show ?thesis
    using assms(1,2) le sp t
    by (simp add: throttle_inv_def dispatch_def postToNodeRed_def Let_def)
qed

lemma scheduleNodeRedPush_throttle_inv:
  assumes "throttle_inv s"
    and "list_all (\<lambda>u. timer_kind u = CooldownTimer \<or> now < timer_due u) (timers s)"
  shows "throttle_inv (scheduleNodeRedPush cfg now s)"
proof (cases "NODE_RED_ENABLED cfg")
  case False
  then show ?thesis using assms(1) by (simp add: scheduleNodeRedPush_def)
next
  case True
  show ?thesis
  proof (cases "now - lastNodeRedDispatch s \<ge> NODE_RED_THROTTLE_MS")
    case now: True
    have "timer_kind u = CooldownTimer" if "u \<in> set (timers s)" for u
    proof (rule ccontr)
      assume "timer_kind u \<noteq> CooldownTimer"
      then have "now < timer_due u" "timer_due u = lastNodeRedDispatch s + NODE_RED_THROTTLE_MS"
        using assms that by (auto simp: throttle_inv_def list_all_iff)
      then show False using now by linarith
    qed
    then have "list_all (\<lambda>u. timer_kind u = CooldownTimer) (timers s)"
      by (simp add: list_all_iff)
    then have "throttle_inv (dispatch cfg now s)"
      using now by (intro dispatch_throttle_inv assms(1)) simp_all
    then show ?thesis using True now by (simp add: scheduleNodeRedPush_def)
  next
    case later: False
    show ?thesis
    proof (cases "nodeRedTimeout s")
      case (Some h)
      then show ?thesis using True later assms(1) by (simp add: scheduleNodeRedPush_def)
    next
      case None
      have none: "list_all (\<lambda>u. timer_kind u = CooldownTimer) (timers s)"
        using assms(1) None by (auto simp: throttle_inv_def list_all_iff)
      have t: "list_all (\<lambda>u. timer_kind u = CooldownTimer \<or> P u) (timers s)" for P
        using none by (auto simp: list_all_iff)
      show ?thesis using True later None assms(1) t
        by (simp add: scheduleNodeRedPush_def setTimeout_def throttle_inv_def Let_def)
    qed
  qed
qed

lemma clearTimeout_throttle_inv: "throttle_inv s \<Longrightarrow> throttle_inv (clearTimeout h s)"
  by (auto simp: throttle_inv_def clearTimeout_def list_all_iff)

lemma fire_timer_throttle_inv:
  assumes "throttle_inv s" and "on_time s (Timer now h)"
  shows "throttle_inv (fire_timer cfg now h s)"
proof (cases "find (\<lambda>t. timer_id t = h) (timers s)")
  case None
  then show ?thesis using assms(1) by (simp add: fire_timer_def)
next
  case (Some t)
  then have t: "t \<in> set (timers s)" "timer_id t = h" by (auto simp: find_Some_iff)
  show ?thesis
  proof (cases "now < timer_due t")
    case True
    then show ?thesis using assms(1) Some by (simp add: fire_timer_def)
  next
    case due: False
    let ?s1 = "clearTimeout h s"
    have i1: "throttle_inv ?s1" by (rule clearTimeout_throttle_inv[OF assms(1)])
    have rest: "list_all (\<lambda>u. timer_kind u = CooldownTimer \<or> now < timer_due u) (timers ?s1)"
      using assms(2) by (auto simp: clearTimeout_def list_all_iff)
    show ?thesis
    proof (cases "timer_kind t")
      case ThrottleTimer
      then have held: "nodeRedTimeout s = Some h"
        "timer_due t = lastNodeRedDispatch s + NODE_RED_THROTTLE_MS"
        using assms(1) t by (auto simp: throttle_inv_def list_all_iff)
      have "list_all (\<lambda>u. timer_kind u = CooldownTimer) (timers ?s1)"
        using assms(1) held(1) by (auto simp: throttle_inv_def clearTimeout_def list_all_iff)
      moreover have "lastNodeRedDispatch ?s1 + NODE_RED_THROTTLE_MS \<le> now"
        using due held(2) by (simp add: clearTimeout_def)
      ultimately have "throttle_inv (dispatch cfg now ?s1)"
        by (intro dispatch_throttle_inv i1)
      then show ?thesis using Some due ThrottleTimer by (simp add: fire_timer_def Let_def)
    next
      case CooldownTimer
      have i2: "throttle_inv (?s1\<lparr>nodeRedCooldownTimer := None\<rparr>)"
        using i1 by (simp add: throttle_inv_def)
      have "throttle_inv (scheduleNodeRedPush cfg now (?s1\<lparr>nodeRedCooldownTimer := None\<rparr>))"
        using rest by (intro scheduleNodeRedPush_throttle_inv i2) simp
      then show ?thesis using Some due CooldownTimer by (simp add: fire_timer_def Let_def)
    qed
  qed
qed

lemma on_message_throttle_inv:
  assumes "throttle_inv s" and "on_time s (Message now f)"
  shows "throttle_inv (on_message cfg now f s)"
proof -
  have u: "throttle_inv (updateState cfg now nm nst s)" for nm nst
    unfolding updateState_def
    using assms by (intro scheduleNodeRedPush_throttle_inv) (simp_all add: throttle_inv_def)
  have l: "throttle_inv (log e s)" for e
    using assms(1) by (simp add: throttle_inv_def log_def)
  have b: "throttle_inv (broadcast m s')" if "throttle_inv s'" for m s'
    using that by (simp add: throttle_inv_def broadcast_def)
  show ?thesis using on_message_shape[of cfg now f s] assms(1) u l b by auto
qed

lemma postToNodeRed_settled_throttle_inv:
  assumes "throttle_inv s"
  shows "throttle_inv (postToNodeRed_settled cfg now r s)"
proof -
  have c: "list_all (\<lambda>u. timer_kind u = CooldownTimer \<or> P u) (filter Q (timers s))"
    if "list_all (\<lambda>u. timer_kind u = CooldownTimer \<or> P u) (timers s)" for P Q
    using that by (auto simp: list_all_iff)
  show ?thesis using assms c
    by (auto simp: throttle_inv_def postToNodeRed_settled_def Let_def log_def setTimeout_def
        clearTimeout_def split: outcome.splits option.splits)
qed

lemma step_throttle_inv:
  assumes "throttle_inv s" and "on_time s e"
  shows "throttle_inv (step cfg s e)"
proof (cases e)
  case (Message now f)
  then show ?thesis using on_message_throttle_inv[OF assms(1)] assms(2) by simp
next
  case (Timer now h)
  then show ?thesis using fire_timer_throttle_inv[OF assms(1)] assms(2) by simp
next
  case (Settled now r)
  then show ?thesis using postToNodeRed_settled_throttle_inv[OF assms(1)] by simp
next
  case (Connection ws)
  then show ?thesis using assms(1) by (simp add: on_connection_def throttle_inv_def)
next
  case (Pong ws)
  then show ?thesis using assms(1) by (simp add: on_pong_def throttle_inv_def)
next
  case (Close ws)
  then show ?thesis using assms(1) by (simp add: on_close_def throttle_inv_def)
next
  case Heartbeat
  then show ?thesis using assms(1) by (simp add: heartbeat_def throttle_inv_def split: prod.splits)
qed

lemma run_throttle_inv:
  "throttle_inv s \<Longrightarrow> run_on_time cfg s evs \<Longrightarrow> throttle_inv (run cfg s evs)"
  unfolding run_def
  by (induction evs arbitrary: s) (simp_all add: step_throttle_inv)

lemma startup_throttle_inv: "throttle_inv (startup cfg t0)"
proof -
  have "throttle_inv (initial_server t0)" by (simp add: throttle_inv_def initial_server_def)
  then show ?thesis unfolding startup_def
    by (rule scheduleNodeRedPush_throttle_inv) (simp add: initial_server_def)
qed

text \<open>
  When every deferred push runs before the next call of \<open>scheduleNodeRedPush\<close> at or
  after its due time, downstream requests are at least one throttle window apart.
\<close>

lemma requests_spaced_when_on_time:
  "run_on_time cfg (startup cfg t0) evs
   \<Longrightarrow> spaced (map fst (requests (run cfg (startup cfg t0) evs)))"
  using run_throttle_inv[OF startup_throttle_inv, where cfg = cfg and evs = evs]
  by (simp add: throttle_inv_def)

lemma same_id_distinct_short:
  "distinct (map f xs) \<Longrightarrow> \<forall>x \<in> set xs. f x = c \<Longrightarrow> length xs \<le> 1"
proof (cases xs)
  case Nil
  then show ?thesis by simp
next
  case (Cons a ys)
  assume "distinct (map f xs)" "\<forall>x \<in> set xs. f x = c"
  then show ?thesis using Cons by (cases ys) auto
qed

text \<open>Under the same condition at most one deferred push is pending.\<close>

lemma one_deferred_push_when_on_time:
  assumes "0 < NODE_RED_RETRY_COOLDOWN_MS cfg" and "run_on_time cfg (startup cfg t0) evs"
  shows "length (filter (\<lambda>u. timer_kind u = ThrottleTimer) (timers (run cfg (startup cfg t0) evs))) \<le> 1"
proof -
  let ?s = "run cfg (startup cfg t0) evs"
  have i: "throttle_inv ?s" by (rule run_throttle_inv[OF startup_throttle_inv assms(2)])
  have d: "distinct (map timer_id (timers ?s))"
    using run_timer_inv[OF assms(1) startup_timer_inv, where evs = evs] by (simp add: timer_inv_def)
  have "distinct (map timer_id (filter (\<lambda>u. timer_kind u = ThrottleTimer) (timers ?s)))"
    using d by (rule distinct_map_filter)
  moreover have "\<forall>u \<in> set (filter (\<lambda>u. timer_kind u = ThrottleTimer) (timers ?s)).
                   timer_id u = the (nodeRedTimeout ?s)"
    using i by (auto simp: throttle_inv_def list_all_iff)
  ultimately show ?thesis by (rule same_id_distinct_short)
qed

end
